theory Spec2Isabelle
  imports Main "HOL-Library.Sublist"
begin

section \<open>Retry executor (index.js, lines 29-30 and 79-97)\<close>

text \<open>
  \<^verbatim>\<open>withRetry(fn, maxRetries, delay)\<close> calls the asynchronous operation \<open>fn\<close> up to
  \<open>maxRetries\<close> times. The operation takes no argument in the source; what it returns on
  its k-th invocation is decided by the network, so the model gives the operation as a
  function from the invocation number (counted from 1) to its outcome: \<open>Inl error\<close> when
  the invocation throws, \<open>Inr v\<close> when it returns \<open>v\<close>. The executor's own observable
  steps are recorded in order: \<open>Call k\<close> for the k-th invocation of \<open>fn\<close> and
  \<open>Wait d\<close> for one \<^verbatim>\<open>setTimeout\<close> pause of \<open>d\<close> milliseconds.
  \<^verbatim>\<open>lastError\<close> starts out undefined (\<open>None\<close>), which is what is thrown when the loop
  body never runs.
\<close>

definition MAX_RETRIES :: nat where
  "MAX_RETRIES = 3"

definition RETRY_DELAY :: nat where
  "RETRY_DELAY = 1000"

datatype step = Call nat | Wait nat

function withRetry_loop ::
  "(nat \<Rightarrow> 'e + 'a) \<Rightarrow> nat \<Rightarrow> nat \<Rightarrow> nat \<Rightarrow> 'e option \<Rightarrow> step list
     \<Rightarrow> ('e option + 'a) \<times> step list" where
  "withRetry_loop fn maxRetries delay attempt lastError tr =
     (if attempt \<le> maxRetries then
        (case fn attempt of
           Inr v \<Rightarrow> (Inr v, tr @ [Call attempt])
         | Inl error \<Rightarrow>
             withRetry_loop fn maxRetries delay (attempt + 1) (Some error)
               (tr @ [Call attempt] @ (if attempt < maxRetries then [Wait delay] else [])))
      else (Inl lastError, tr))"
  by pat_completeness auto
termination
  by (relation "measure (\<lambda>(fn, maxRetries, delay, attempt, lastError, tr). Suc maxRetries - attempt)")
     auto

definition withRetry :: "(nat \<Rightarrow> 'e + 'a) \<Rightarrow> nat \<Rightarrow> nat \<Rightarrow> ('e option + 'a) \<times> step list" where
  "withRetry fn maxRetries delay = withRetry_loop fn maxRetries delay 1 None []"

definition delays :: "step list \<Rightarrow> nat" where
  "delays tr = length (filter (\<lambda>s. case s of Wait d \<Rightarrow> True | Call k \<Rightarrow> False) tr)"

section \<open>Data model (the JSON shapes read by index.js)\<close>

text \<open>
  The feed and the detail endpoint deliver JSON; the records below have one field for
  each property that \<^verbatim>\<open>processTweets\<close> reads on a control-flow path. An optional string
  property is a \<open>string option\<close> (\<open>None\<close>: absent), and an array property that the source
  only uses after testing \<^verbatim>\<open>x && x.length > 0\<close> or \<^verbatim>\<open>x?.length > 0\<close> is a list in
  which the absent array is \<open>[]\<close>.

  A variant object is read in two ways: the tiers working on \<^verbatim>\<open>video.variants\<close> read
  \<^verbatim>\<open>type\<close>, \<^verbatim>\<open>src\<close> and \<^verbatim>\<open>url\<close>; the tiers working on
  \<^verbatim>\<open>video_info.variants\<close> read \<^verbatim>\<open>content_type\<close>, \<^verbatim>\<open>bitrate\<close> and \<^verbatim>\<open>url\<close>.
\<close>

type_synonym error = string

record variant =
  v_type :: "string option"
  v_src :: "string option"
  v_url :: "string option"
  v_content_type :: "string option"
  v_bitrate :: "int option"

text \<open>
  An entry of \<^verbatim>\<open>mediaDetails\<close>, \<^verbatim>\<open>extended_entities.media\<close> or \<^verbatim>\<open>entities.media\<close>;
  \<open>m_variants\<close> is \<^verbatim>\<open>video_info?.variants\<close>.
\<close>

record media =
  m_type :: string
  m_variants :: "variant list"
  m_media_url_https :: "string option"
  m_media_url :: "string option"

record photo =
  ph_url :: "string option"

text \<open>
  The detail record: \<open>d_video\<close> is \<^verbatim>\<open>video\<close> (\<open>None\<close>: absent, otherwise its
  \<^verbatim>\<open>variants\<close>), \<open>d_parent\<close> is \<^verbatim>\<open>parent\<close> (\<open>None\<close>: absent, otherwise
  \<^verbatim>\<open>parent.video\<close>, again \<open>None\<close> when absent or its \<^verbatim>\<open>variants\<close>).
\<close>

record detail =
  d_video :: "variant list option"
  d_parent :: "variant list option option"
  d_mediaDetails :: "media list"
  d_photos :: "photo list"

record url_entity =
  u_images :: "string option list"
  u_display_url :: "string option"
  u_expanded_url :: "string option"

record twuser =
  username :: "string option"
  screen_name :: "string option"

text \<open>
  A post of the feed. \<open>created_at\<close> is the creation time in milliseconds as
  \<^verbatim>\<open>new Date(tweet.created_at).getTime()\<close> reads it, \<open>None\<close> when the property is absent
  (the sort then uses time 0 and the recency test sees NaN). A present date that does not
  parse is outside the model. \<open>referenced_tweets\<close> holds the \<^verbatim>\<open>type\<close> of each
  referenced tweet, \<open>in_reply_to_user_id\<close> says whether that property is truthy,
  \<open>entities_media\<close> and \<open>entities_urls\<close> are \<^verbatim>\<open>entities.media\<close> and \<^verbatim>\<open>entities.urls\<close>
  (empty when \<^verbatim>\<open>entities\<close> is absent), and \<open>media_keys\<close> is
  \<^verbatim>\<open>attachments.media_keys\<close>. Each image of a URL entity is given by its \<^verbatim>\<open>url\<close>.
  The elements of a batch, and of every array inside a post or a detail record, are
  objects.
\<close>

record tweet =
  t_id :: string
  created_at :: "int option"
  user :: "twuser option"
  referenced_tweets :: "string list"
  in_reply_to_user_id :: bool
  extended_entities_media :: "media list"
  entities_media :: "media list"
  entities_urls :: "url_entity list"
  media_keys :: "string list"

section \<open>The outgoing message\<close>

text \<open>
  The embed is represented by the parts that the media cascade and the message type
  decide: the link of the post, the classification that opens the footer, the
  annotations appended to the footer text one after the other, the image, and whether the
  reply field was added. The author line, the description, the timestamp and the link
  field (lines 262-292) are set from the post alone, before the cascade, and influence no
  branch; the setters of the embed builder are taken to accept what they are given.
\<close>

datatype tweet_type = Retweet | Reply | Tweet

datatype annotation = VideoWillFollow | VideoFromReferenced | Images nat | ContainsMedia

record embed =
  em_url :: string
  em_type :: tweet_type
  em_notes :: "annotation list"
  em_image :: "string option"
  em_reply :: bool

section \<open>The environment\<close>

text \<open>
  Everything the process observes of the outside world is read from an oracle. The
  process counts the network operations it has started (\<open>calls\<close>); the n-th operation gets
  its outcome from the oracle at index n, for a retried operation one outcome per
  attempt. The clock and the file system are read at the current count without advancing
  it. \<open>events\<close> is the trace of what the process did, in order. Events that belong to the
  processing of one post carry the identifier of that post.
\<close>

datatype 'a response = Throws error | Status nat 'a

datatype feed_data = NoData | DataArray "tweet list" | DataOther

datatype path = PROCESSED_IDS_FILE | STATE_FILE

datatype event =
    FeedRequest
  | ChannelFetch
  | Mark string
  | DetailRequest string
  | MediaRequest string "string option" string
  | Delay nat
  | SendEmbed string embed
  | SendVideo string "string option" "string option"
  | WriteFile path

record env =
  feedAt :: "nat \<Rightarrow> nat \<Rightarrow> feed_data response"
  channelAt :: "nat \<Rightarrow> error + bool"
  detailAt :: "nat \<Rightarrow> nat \<Rightarrow> detail option response"
  mediaAt :: "nat \<Rightarrow> nat \<Rightarrow> error option"
  sendAt :: "nat \<Rightarrow> error option"
  writeAt :: "nat \<Rightarrow> path \<Rightarrow> error option"
  clockAt :: "nat \<Rightarrow> int"

record io =
  calls :: nat
  events :: "event list"

definition emit :: "event \<Rightarrow> io \<Rightarrow> io" where
  "emit e w = w\<lparr>events := events w @ [e]\<rparr>"

text \<open>
  \<open>retried req steps w\<close> records a finished \<open>withRetry\<close> run in the trace: every
  invocation of the retried operation is the request \<open>req\<close>, every pause a \<open>Delay\<close>.
\<close>

definition retried :: "event \<Rightarrow> step list \<Rightarrow> io \<Rightarrow> io" where
  "retried req steps w =
     \<lparr>calls = calls w + 1,
      events = events w @ map (\<lambda>s. case s of Call k \<Rightarrow> req | Wait d \<Rightarrow> Delay d) steps\<rparr>"

section \<open>Persistent state (index.js, lines 32-76)\<close>

text \<open>
  \<^verbatim>\<open>lastProcessedIds\<close> is an object used as a dictionary from post identifier to
  \<^verbatim>\<open>true\<close>; an identifier counts as processed when its entry is truthy. Identifiers
  are the strings of the feed; none of them is a property name that an object inherits.
  The two files are modelled by their parsed contents, \<open>None\<close> when the file does not
  exist.
\<close>

record bot =
  lastProcessedIds :: "string \<rightharpoonup> bool"
  lastFetchTimestamp :: "int option"
  processed_ids_file :: "(string \<rightharpoonup> bool) option"
  state_file :: "int option option"

definition isProcessed :: "(string \<rightharpoonup> bool) \<Rightarrow> string \<Rightarrow> bool" where
  "isProcessed ids k = (ids k = Some True)"

text \<open>Lines 44-61: what a starting process reads from the two files.\<close>

definition loadState :: "(string \<rightharpoonup> bool) option \<Rightarrow> int option option \<Rightarrow> bot" where
  "loadState idsFile stateFile =
     \<lparr>lastProcessedIds = (case idsFile of Some data \<Rightarrow> data | None \<Rightarrow> Map.empty),
      lastFetchTimestamp =
        (case stateFile of
           Some (Some t) \<Rightarrow> if t \<noteq> 0 then Some t else None
         | _ \<Rightarrow> None),
      processed_ids_file = idsFile,
      state_file = stateFile\<rparr>"

text \<open>
  Lines 64-76: both writes sit in one \<^verbatim>\<open>try\<close>, so a failing first write skips the
  second; the error is logged and not rethrown. The event \<open>WriteFile\<close> records that the
  write was attempted.
\<close>

definition saveState :: "env \<Rightarrow> bot \<times> io \<Rightarrow> bot \<times> io" where
  "saveState env bw =
     (case bw of (b, w) \<Rightarrow>
        (case writeAt env (calls w) PROCESSED_IDS_FILE of
           Some error \<Rightarrow> (b, emit (WriteFile PROCESSED_IDS_FILE) w)
         | None \<Rightarrow>
             (let b1 = b\<lparr>processed_ids_file := Some (lastProcessedIds b)\<rparr>;
                  w1 = emit (WriteFile PROCESSED_IDS_FILE) w
              in (case writeAt env (calls w) STATE_FILE of
                    Some error \<Rightarrow> (b1, emit (WriteFile STATE_FILE) w1)
                  | None \<Rightarrow>
                      (b1\<lparr>state_file := Some (lastFetchTimestamp b1)\<rparr>,
                       emit (WriteFile STATE_FILE) w1)))))"

section \<open>Network operations (index.js, lines 99-167)\<close>

definition fetchTweets :: "env \<Rightarrow> io \<Rightarrow> (error option + feed_data) \<times> io" where
  "fetchTweets env w =
     (case withRetry
             (\<lambda>attempt. case feedAt env (calls w) attempt of
                 Throws error \<Rightarrow> Inl error
               | Status status d \<Rightarrow>
                   if status = 200 then Inr (case d of NoData \<Rightarrow> DataArray [] | _ \<Rightarrow> d)
                   else Inl ''API returned status code'')
             MAX_RETRIES RETRY_DELAY of
        (r, steps) \<Rightarrow> (r, retried FeedRequest steps w))"

definition fetchSingleTweet :: "env \<Rightarrow> string \<Rightarrow> io \<Rightarrow> (error option + detail option) \<times> io" where
  "fetchSingleTweet env tweetId w =
     (case withRetry
             (\<lambda>attempt. case detailAt env (calls w) attempt of
                 Throws error \<Rightarrow> Inl error
               | Status status d \<Rightarrow>
                   if status = 200 then Inr d else Inl ''API returned status code'')
             MAX_RETRIES RETRY_DELAY of
        (r, steps) \<Rightarrow> (r, retried (DetailRequest tweetId) steps w))"

definition CACHE_DIR :: string where
  "CACHE_DIR = ''cache''"

text \<open>
  \<open>downloadMedia\<close> gets the identifier of the post being processed as an extra first
  argument, used for the trace only. An attempt succeeds when both the request and the
  write into the cache directory succeed, and the result is then the path of the file.
\<close>

definition downloadMedia ::
  "env \<Rightarrow> string \<Rightarrow> string option \<Rightarrow> string \<Rightarrow> io \<Rightarrow> (error option + string) \<times> io" where
  "downloadMedia env tweetId url filename w =
     (case withRetry
             (\<lambda>attempt. case mediaAt env (calls w) attempt of
                 Some error \<Rightarrow> Inl error
               | None \<Rightarrow> Inr (CACHE_DIR @ ''/'' @ filename))
             MAX_RETRIES RETRY_DELAY of
        (r, steps) \<Rightarrow> (r, retried (MediaRequest tweetId url filename) steps w))"

text \<open>\<^verbatim>\<open>client.channels.fetch\<close> (line 196): throws, or yields the channel or null.\<close>

definition channelFetch :: "env \<Rightarrow> io \<Rightarrow> (error + bool) \<times> io" where
  "channelFetch env w =
     (channelAt env (calls w), \<lparr>calls = calls w + 1, events = events w @ [ChannelFetch]\<rparr>)"

text \<open>\<^verbatim>\<open>channel.send\<close> (lines 588 and 598): \<open>Some error\<close> when the call throws.\<close>

definition channelSend :: "env \<Rightarrow> event \<Rightarrow> io \<Rightarrow> error option \<times> io" where
  "channelSend env message w =
     (sendAt env (calls w), \<lparr>calls = calls w + 1, events = events w @ [message]\<rparr>)"

section \<open>Media cascade (index.js, lines 299-577)\<close>

text \<open>The local variables of lines 299-303 together with the embed under construction.\<close>

record media_state =
  hasFoundImage :: bool
  hasFoundVideo :: bool
  videoPath :: "string option"
  videoFilename :: "string option"
  embed :: embed

text \<open>How a block of statements ends: normally, or by an exception that leaves it.\<close>

datatype completion = Normal | Thrown "error option"

definition truthy :: "string option \<Rightarrow> bool" where
  "truthy x = (case x of Some s \<Rightarrow> s \<noteq> [] | None \<Rightarrow> False)"

text \<open>\<^verbatim>\<open>a || b\<close> on optional strings.\<close>

definition orElse :: "string option \<Rightarrow> string option \<Rightarrow> string option" where
  "orElse a b = (if truthy a then a else b)"

definition endsWith :: "string \<Rightarrow> string \<Rightarrow> bool" where
  "endsWith s ending = prefix (rev ending) (rev s)"

fun includes_str :: "string \<Rightarrow> string \<Rightarrow> bool" where
  "includes_str [] sub = (sub = [])"
| "includes_str (c # cs) sub = (prefix sub (c # cs) \<or> includes_str cs sub)"

text \<open>\<^verbatim>\<open>x?.includes(sub)\<close> on an optional string.\<close>

definition includesOpt :: "string option \<Rightarrow> string \<Rightarrow> bool" where
  "includesOpt x sub = (case x of Some s \<Rightarrow> includes_str s sub | None \<Rightarrow> False)"

text \<open>
  \<^verbatim>\<open>embed.setFooter({text: `${currentFooter} \<dots>`})\<close> appends one annotation to the footer.
\<close>

definition addNote :: "annotation \<Rightarrow> media_state \<Rightarrow> media_state" where
  "addNote n ms = ms\<lparr>embed := (embed ms)\<lparr>em_notes := em_notes (embed ms) @ [n]\<rparr>\<rparr>"

definition setImage :: "string option \<Rightarrow> media_state \<Rightarrow> media_state" where
  "setImage url ms = ms\<lparr>embed := (embed ms)\<lparr>em_image := url\<rparr>\<rparr>"

text \<open>
  The statements after a download that returned (lines 323-334, 349-360, 379-389 and
  467-478): the path is assigned, and a truthy path makes the video found.
\<close>

definition videoDownloaded :: "annotation \<Rightarrow> string \<Rightarrow> media_state \<Rightarrow> media_state" where
  "videoDownloaded n p ms =
     (let ms1 = ms\<lparr>videoPath := Some p\<rparr>
      in if p \<noteq> [] then addNote n (ms1\<lparr>hasFoundVideo := True\<rparr>) else ms1)"

text \<open>Lines 317 and 343: the test given to \<^verbatim>\<open>find\<close>.\<close>

definition isMp4Variant :: "variant \<Rightarrow> bool" where
  "isMp4Variant v =
     (v_type v = Some ''video/mp4'' \<or> (case v_src v of Some s \<Rightarrow> endsWith s ''.mp4'' | None \<Rightarrow> False))"

text \<open>
  Lines 314-336 and 341-362 are the same statements up to the file name and the footer
  annotation: the first variant that passes the test is downloaded. An exception of the
  download leaves the block after \<^verbatim>\<open>videoFilename\<close> was assigned.
\<close>

definition directVideo ::
  "env \<Rightarrow> tweet \<Rightarrow> string \<Rightarrow> annotation \<Rightarrow> variant list \<Rightarrow> media_state \<Rightarrow> io
     \<Rightarrow> completion \<times> media_state \<times> io" where
  "directVideo env tweet filename n videoVariants ms w =
     (if videoVariants \<noteq> [] then
        (case find isMp4Variant videoVariants of
           None \<Rightarrow> (Normal, ms, w)
         | Some mp4Variant \<Rightarrow>
             (let videoUrl = orElse (v_src mp4Variant) (v_url mp4Variant);
                  ms1 = ms\<lparr>videoFilename := Some filename\<rparr>
              in (case downloadMedia env (t_id tweet) videoUrl filename w of
                    (Inl error, w1) \<Rightarrow> (Thrown error, ms1, w1)
                  | (Inr p, w1) \<Rightarrow> (Normal, videoDownloaded n p ms1, w1))))
      else (Normal, ms, w))"

text \<open>Case 1, lines 313-337.\<close>

definition videoCase1 ::
  "env \<Rightarrow> tweet \<Rightarrow> detail \<Rightarrow> media_state \<Rightarrow> io \<Rightarrow> completion \<times> media_state \<times> io" where
  "videoCase1 env tweet detailedTweet ms w =
     (case d_video detailedTweet of
        Some videoVariants \<Rightarrow>
          if \<not> hasFoundVideo ms
          then directVideo env tweet (''video_'' @ t_id tweet @ ''.mp4'') VideoWillFollow
                 videoVariants ms w
          else (Normal, ms, w)
      | None \<Rightarrow> (Normal, ms, w))"

text \<open>Case 2, lines 340-363.\<close>

definition videoCase2 ::
  "env \<Rightarrow> tweet \<Rightarrow> detail \<Rightarrow> media_state \<Rightarrow> io \<Rightarrow> completion \<times> media_state \<times> io" where
  "videoCase2 env tweet detailedTweet ms w =
     (if \<not> hasFoundVideo ms then
        (case d_parent detailedTweet of
           Some (Some parentVariants) \<Rightarrow>
             directVideo env tweet (''video_parent_'' @ t_id tweet @ ''.mp4'') VideoFromReferenced
               parentVariants ms w
         | _ \<Rightarrow> (Normal, ms, w))
      else (Normal, ms, w))"

text \<open>
  Lines 370-372 and 458-460: the variants of content type MP4, sorted by descending
  bitrate with an absent bitrate read as 0. The sort of the source is stable, as is
  \<open>sort_key\<close>.
\<close>

definition mp4Variants :: "variant list \<Rightarrow> variant list" where
  "mp4Variants variants =
     sort_key (\<lambda>v. - (case v_bitrate v of Some b \<Rightarrow> b | None \<Rightarrow> 0))
       (filter (\<lambda>v. v_content_type v = Some ''video/mp4'') variants)"

text \<open>
  Case 3, the loop of lines 367-395. An absent and an empty \<^verbatim>\<open>video_info.variants\<close>
  both leave \<open>mp4Variants\<close> empty, so the truthiness test of line 368 needs no branch of
  its own.
\<close>

fun mediaDetailsVideo ::
  "env \<Rightarrow> tweet \<Rightarrow> media list \<Rightarrow> media_state \<Rightarrow> io \<Rightarrow> completion \<times> media_state \<times> io" where
  "mediaDetailsVideo env tweet [] ms w = (Normal, ms, w)"
| "mediaDetailsVideo env tweet (m # rest) ms w =
     (if m_type m = ''video'' \<or> m_type m = ''animated_gif'' then
        (case mp4Variants (m_variants m) of
           [] \<Rightarrow> mediaDetailsVideo env tweet rest ms w
         | best # others \<Rightarrow>
             (case downloadMedia env (t_id tweet) (v_url best) (''video_'' @ t_id tweet @ ''.mp4'') w of
                (Inl error, w1) \<Rightarrow>
                  (Thrown error, ms\<lparr>videoFilename := Some (''video_'' @ t_id tweet @ ''.mp4'')\<rparr>, w1)
              | (Inr p, w1) \<Rightarrow>
                  if p \<noteq> []
                  then (Normal,
                        videoDownloaded VideoWillFollow p
                          (ms\<lparr>videoFilename := Some (''video_'' @ t_id tweet @ ''.mp4'')\<rparr>), w1)
                  else mediaDetailsVideo env tweet rest
                         (videoDownloaded VideoWillFollow p
                            (ms\<lparr>videoFilename := Some (''video_'' @ t_id tweet @ ''.mp4'')\<rparr>)) w1))
      else mediaDetailsVideo env tweet rest ms w)"

definition videoCase3 ::
  "env \<Rightarrow> tweet \<Rightarrow> detail \<Rightarrow> media_state \<Rightarrow> io \<Rightarrow> completion \<times> media_state \<times> io" where
  "videoCase3 env tweet detailedTweet ms w =
     (if \<not> hasFoundVideo ms \<and> d_mediaDetails detailedTweet \<noteq> []
      then mediaDetailsVideo env tweet (d_mediaDetails detailedTweet) ms w
      else (Normal, ms, w))"

text \<open>The statements of lines 405-414, 423-432, 491-500, 525-534 and 549-558.\<close>

definition imageFound :: "string option \<Rightarrow> nat \<Rightarrow> media_state \<Rightarrow> media_state" where
  "imageFound url n ms =
     (let ms1 = (setImage url ms)\<lparr>hasFoundImage := True\<rparr>
      in if n > 1 then addNote (Images n) ms1 else ms1)"

text \<open>The loop of lines 402-417; \<open>n\<close> is \<^verbatim>\<open>detailedTweet.photos.length\<close>.\<close>

fun photosLoop :: "photo list \<Rightarrow> nat \<Rightarrow> media_state \<Rightarrow> media_state" where
  "photosLoop [] n ms = ms"
| "photosLoop (p # rest) n ms =
     (if truthy (ph_url p) \<and> includesOpt (ph_url p) ''media/''
      then imageFound (ph_url p) n ms
      else photosLoop rest n ms)"

text \<open>The loop of lines 420-435; \<open>n\<close> is \<^verbatim>\<open>detailedTweet.mediaDetails.length\<close>.\<close>

fun mediaPhotosLoop :: "media list \<Rightarrow> nat \<Rightarrow> media_state \<Rightarrow> media_state" where
  "mediaPhotosLoop [] n ms = ms"
| "mediaPhotosLoop (m # rest) n ms =
     (if truthy (m_media_url_https m) \<and> m_type m = ''photo''
      then imageFound (m_media_url_https m) n ms
      else mediaPhotosLoop rest n ms)"

text \<open>Lines 398-437.\<close>

definition detailImages :: "detail \<Rightarrow> media_state \<Rightarrow> media_state" where
  "detailImages detailedTweet ms =
     (if \<not> hasFoundVideo ms then
        (if d_photos detailedTweet \<noteq> []
         then photosLoop (d_photos detailedTweet) (length (d_photos detailedTweet)) ms
         else if d_mediaDetails detailedTweet \<noteq> []
         then mediaPhotosLoop (d_mediaDetails detailedTweet)
                (length (d_mediaDetails detailedTweet)) ms
         else ms)
      else ms)"

text \<open>
  Lines 311-438, the body of \<^verbatim>\<open>if (detailedTweet)\<close>: an exception thrown by a download
  leaves the whole body.
\<close>

definition detailMedia ::
  "env \<Rightarrow> tweet \<Rightarrow> detail \<Rightarrow> media_state \<Rightarrow> io \<Rightarrow> completion \<times> media_state \<times> io" where
  "detailMedia env tweet detailedTweet ms w =
     (case videoCase1 env tweet detailedTweet ms w of
        (Thrown error, ms1, w1) \<Rightarrow> (Thrown error, ms1, w1)
      | (Normal, ms1, w1) \<Rightarrow>
          (case videoCase2 env tweet detailedTweet ms1 w1 of
             (Thrown error, ms2, w2) \<Rightarrow> (Thrown error, ms2, w2)
           | (Normal, ms2, w2) \<Rightarrow>
               (case videoCase3 env tweet detailedTweet ms2 w2 of
                  (Thrown error, ms3, w3) \<Rightarrow> (Thrown error, ms3, w3)
                | (Normal, ms3, w3) \<Rightarrow> (Normal, detailImages detailedTweet ms3, w3))))"

text \<open>
  Lines 306-442: the \<^verbatim>\<open>try\<close> around the detail fetch and the body above; the handler
  logs the error and processing goes on after it.
\<close>

definition detailTier :: "env \<Rightarrow> tweet \<Rightarrow> media_state \<Rightarrow> io \<Rightarrow> media_state \<times> io" where
  "detailTier env tweet ms w =
     (case fetchSingleTweet env (t_id tweet) w of
        (Inl detailError, w1) \<Rightarrow> (ms, w1)
      | (Inr None, w1) \<Rightarrow> (ms, w1)
      | (Inr (Some detailedTweet), w1) \<Rightarrow>
          (case detailMedia env tweet detailedTweet ms w1 of (c, ms1, w2) \<Rightarrow> (ms1, w2)))"

text \<open>Lines 451-483: the video of the raw post, with its own \<^verbatim>\<open>try\<close> around the download.\<close>

definition extendedVideo :: "env \<Rightarrow> tweet \<Rightarrow> media_state \<Rightarrow> io \<Rightarrow> media_state \<times> io" where
  "extendedVideo env tweet ms w =
     (case find (\<lambda>m. m_type m = ''video'' \<or> m_type m = ''animated_gif'')
             (extended_entities_media tweet) of
        None \<Rightarrow> (ms, w)
      | Some videoMedia \<Rightarrow>
          (case mp4Variants (m_variants videoMedia) of
             [] \<Rightarrow> (ms, w)
           | best # others \<Rightarrow>
               (case downloadMedia env (t_id tweet) (v_url best) (''video_'' @ t_id tweet @ ''.mp4'') w of
                  (Inl videoError, w1) \<Rightarrow>
                    (ms\<lparr>videoFilename := Some (''video_'' @ t_id tweet @ ''.mp4'')\<rparr>, w1)
                | (Inr p, w1) \<Rightarrow>
                    (videoDownloaded VideoWillFollow p
                       (ms\<lparr>videoFilename := Some (''video_'' @ t_id tweet @ ''.mp4'')\<rparr>), w1))))"

text \<open>Lines 485-502.\<close>

definition extendedImage :: "tweet \<Rightarrow> media_state \<Rightarrow> media_state" where
  "extendedImage tweet ms =
     (if \<not> hasFoundVideo ms \<and> \<not> hasFoundImage ms then
        (case extended_entities_media tweet of
           [] \<Rightarrow> ms
         | m0 # others \<Rightarrow>
             (let mediaUrl = orElse (m_media_url_https m0) (m_media_url m0)
              in if truthy mediaUrl
                 then imageFound mediaUrl (length (extended_entities_media tweet)) ms
                 else ms))
      else ms)"

text \<open>Lines 447-503.\<close>

definition extendedEntities :: "env \<Rightarrow> tweet \<Rightarrow> media_state \<Rightarrow> io \<Rightarrow> media_state \<times> io" where
  "extendedEntities env tweet ms w =
     (if extended_entities_media tweet \<noteq> [] then
        (case extendedVideo env tweet ms w of (ms1, w1) \<Rightarrow> (extendedImage tweet ms1, w1))
      else (ms, w))"

text \<open>Lines 508-515: the count annotation is not written here, hence the count 1.\<close>

definition entitiesMedia :: "tweet \<Rightarrow> media_state \<Rightarrow> media_state" where
  "entitiesMedia tweet ms =
     (case entities_media tweet of
        [] \<Rightarrow> ms
      | m0 # others \<Rightarrow>
          (let mediaUrl = orElse (m_media_url_https m0) (m_media_url m0)
           in if truthy mediaUrl then imageFound mediaUrl 1 ms else ms))"

text \<open>
  Lines 518-561. Every member of \<open>imageUrlsWithData\<close> has a first image, so the inner
  \<open>[]\<close> branch is never taken.
\<close>

definition entitiesUrls :: "tweet \<Rightarrow> media_state \<Rightarrow> media_state" where
  "entitiesUrls tweet ms =
     (if \<not> hasFoundImage ms \<and> entities_urls tweet \<noteq> [] then
        (let imageUrlsWithData = filter (\<lambda>url. u_images url \<noteq> []) (entities_urls tweet);
             ms1 = (case imageUrlsWithData of
                      [] \<Rightarrow> ms
                    | u0 # others \<Rightarrow>
                        (case u_images u0 of
                           [] \<Rightarrow> ms
                         | imageUrl # rest \<Rightarrow> imageFound imageUrl (length imageUrlsWithData) ms))
         in if \<not> hasFoundImage ms1 then
              (let mediaUrls =
                     map u_expanded_url
                       (filter (\<lambda>url. includesOpt (u_display_url url) ''pic.twitter.com'' \<or>
                                      includesOpt (u_display_url url) ''pic.x.com'' \<or>
                                      includesOpt (u_expanded_url url) ''/photo/'')
                          (entities_urls tweet))
               in (case mediaUrls of
                     [] \<Rightarrow> ms1
                   | url0 # others \<Rightarrow> imageFound url0 (length mediaUrls) ms1))
            else ms1)
      else ms)"

text \<open>Lines 445-563: the fall-back on the fields of the raw post.\<close>

definition fallbackMedia :: "env \<Rightarrow> tweet \<Rightarrow> media_state \<Rightarrow> io \<Rightarrow> media_state \<times> io" where
  "fallbackMedia env tweet ms w =
     (if \<not> hasFoundImage ms \<and> \<not> hasFoundVideo ms then
        (case extendedEntities env tweet ms w of
           (ms1, w1) \<Rightarrow>
             (if \<not> hasFoundImage ms1 \<and> \<not> hasFoundVideo ms1
              then (entitiesUrls tweet (entitiesMedia tweet ms1), w1)
              else (ms1, w1)))
      else (ms, w))"

text \<open>Lines 565-577.\<close>

definition attachmentsNote :: "tweet \<Rightarrow> media_state \<Rightarrow> media_state" where
  "attachmentsNote tweet ms =
     (if \<not> hasFoundImage ms \<and> \<not> hasFoundVideo ms \<and> media_keys tweet \<noteq> []
      then addNote ContainsMedia ms
      else ms)"

text \<open>Lines 299-577 in sequence.\<close>

definition resolveMedia :: "env \<Rightarrow> tweet \<Rightarrow> media_state \<Rightarrow> io \<Rightarrow> media_state \<times> io" where
  "resolveMedia env tweet ms w =
     (case detailTier env tweet ms w of
        (ms1, w1) \<Rightarrow>
          (case fallbackMedia env tweet ms1 w1 of
             (ms2, w2) \<Rightarrow> (attachmentsNote tweet ms2, w2)))"

section \<open>Processing one post (index.js, lines 237-619)\<close>

text \<open>Lines 246-259: the handle in the link, and the classification.\<close>

definition usernameOf :: "twuser \<Rightarrow> string" where
  "usernameOf u =
     (case orElse (username u) (screen_name u) of
        Some s \<Rightarrow> if s \<noteq> [] then s else ''unknown''
      | None \<Rightarrow> ''unknown'')"

definition tweetType :: "tweet \<Rightarrow> tweet_type" where
  "tweetType tweet =
     (if find (\<lambda>rt. rt = ''retweeted'') (referenced_tweets tweet) \<noteq> None then Retweet
      else if in_reply_to_user_id tweet then Reply
      else Tweet)"

definition newEmbed :: "tweet \<Rightarrow> twuser \<Rightarrow> embed" where
  "newEmbed tweet u =
     \<lparr>em_url = ''https://twitter.com/'' @ usernameOf u @ ''/status/'' @ t_id tweet,
      em_type = tweetType tweet,
      em_notes = [],
      em_image = None,
      em_reply = False\<rparr>"

text \<open>Lines 579-585.\<close>

definition replyField :: "tweet \<Rightarrow> media_state \<Rightarrow> media_state" where
  "replyField tweet ms =
     (if in_reply_to_user_id tweet then ms\<lparr>embed := (embed ms)\<lparr>em_reply := True\<rparr>\<rparr> else ms)"

text \<open>
  The body of the \<^verbatim>\<open>try\<close> of lines 237-619. A post without user is skipped. A failing
  send of the embed is caught by the handler of line 617, which ends the processing of
  the post; the send of the video has a handler of its own (line 612). The deferred
  removal of the downloaded file (lines 602-611) is not part of the model.
\<close>

definition processTweet :: "env \<Rightarrow> tweet \<Rightarrow> io \<Rightarrow> io" where
  "processTweet env tweet w =
     (case user tweet of
        None \<Rightarrow> w
      | Some u \<Rightarrow>
          (case resolveMedia env tweet
                  \<lparr>hasFoundImage = False, hasFoundVideo = False, videoPath = None,
                   videoFilename = None, embed = newEmbed tweet u\<rparr> w of
             (ms, w1) \<Rightarrow>
               (case channelSend env (SendEmbed (t_id tweet) (embed (replyField tweet ms))) w1 of
                  (Some error, w2) \<Rightarrow> w2
                | (None, w2) \<Rightarrow>
                    if hasFoundVideo ms \<and> truthy (videoPath ms)
                    then snd (channelSend env
                                (SendVideo (t_id tweet) (videoPath ms) (videoFilename ms)) w2)
                    else w2)))"

section \<open>One fetch cycle (index.js, lines 170-634)\<close>

definition ONE_MINUTE :: int where
  "ONE_MINUTE = 60 * 1000"

text \<open>Lines 203-207: newest first; an absent creation time sorts as time 0.\<close>

definition sortedTweets :: "tweet list \<Rightarrow> tweet list" where
  "sortedTweets tweets =
     sort_key (\<lambda>t. - (case created_at t of Some ms \<Rightarrow> ms | None \<Rightarrow> 0)) tweets"

text \<open>Lines 213-216: the comparison with NaN of an absent creation time is false.\<close>

definition isRecent :: "int \<Rightarrow> tweet \<Rightarrow> bool" where
  "isRecent currentTime tweet =
     (case created_at tweet of
        Some tweetTime \<Rightarrow> currentTime - tweetTime \<le> ONE_MINUTE
      | None \<Rightarrow> False)"

definition recentTweets :: "int \<Rightarrow> tweet list \<Rightarrow> tweet list" where
  "recentTweets currentTime tweets = filter (isRecent currentTime) (sortedTweets tweets)"

text \<open>Lines 186-188: the first run marks every fetched post.\<close>

fun markAll :: "tweet list \<Rightarrow> (string \<rightharpoonup> bool) \<times> io \<Rightarrow> (string \<rightharpoonup> bool) \<times> io" where
  "markAll [] iw = iw"
| "markAll (tweet # rest) iw =
     (case iw of (ids, w) \<Rightarrow> markAll rest (ids(t_id tweet \<mapsto> True), emit (Mark (t_id tweet)) w))"

text \<open>
  Lines 228-620: the loop over the recent posts. The test of line 230 and the mark of
  line 235 come before the \<^verbatim>\<open>try\<close>.
\<close>

fun tweetLoop ::
  "env \<Rightarrow> tweet list \<Rightarrow> (string \<rightharpoonup> bool) \<times> io \<Rightarrow> (string \<rightharpoonup> bool) \<times> io" where
  "tweetLoop env [] iw = iw"
| "tweetLoop env (tweet # rest) iw =
     (case iw of (ids, w) \<Rightarrow>
        if isProcessed ids (t_id tweet) then tweetLoop env rest (ids, w)
        else tweetLoop env rest
               (ids(t_id tweet \<mapsto> True), processTweet env tweet (emit (Mark (t_id tweet)) w)))"

text \<open>
  \<open>processTweets\<close>. The two readings of \<^verbatim>\<open>Date.now()\<close> (lines 181 and 212) are taken
  after the feed fetch and after the channel fetch. Every exception that reaches the
  outer handler (line 631) ends the cycle with the state as it is.
\<close>

definition processTweets :: "env \<Rightarrow> bot \<times> io \<Rightarrow> bot \<times> io" where
  "processTweets env bw =
     (case bw of (b, w) \<Rightarrow>
        (case fetchTweets env w of
           (Inl error, w1) \<Rightarrow> (b, w1)
         | (Inr (DataArray tweets), w1) \<Rightarrow>
             (let currentFetchTime = clockAt env (calls w1)
              in (case lastFetchTimestamp b of
                    None \<Rightarrow>
                      (case markAll tweets (lastProcessedIds b, w1) of
                         (ids, w2) \<Rightarrow>
                           saveState env
                             (b\<lparr>lastProcessedIds := ids,
                                lastFetchTimestamp := Some currentFetchTime\<rparr>, w2))
                  | Some t \<Rightarrow>
                      (case channelFetch env w1 of
                         (Inl error, w2) \<Rightarrow> (b, w2)
                       | (Inr False, w2) \<Rightarrow> (b, w2)
                       | (Inr True, w2) \<Rightarrow>
                           (let recent = recentTweets (clockAt env (calls w2)) tweets
                            in if length recent = 0
                               then (b\<lparr>lastFetchTimestamp := Some currentFetchTime\<rparr>, w2)
                               else (case tweetLoop env recent (lastProcessedIds b, w2) of
                                       (ids, w3) \<Rightarrow>
                                         if length recent > 0
                                         then saveState env
                                                (b\<lparr>lastProcessedIds := ids,
                                                   lastFetchTimestamp := Some currentFetchTime\<rparr>,
                                                 w3)
                                         else (b\<lparr>lastProcessedIds := ids,
                                                 lastFetchTimestamp := Some currentFetchTime\<rparr>,
                                               w3))))))
         | (Inr other, w1) \<Rightarrow> (b, w1)))"

text \<open>
  Lines 652-666: the cycle at start-up and the cycles of the timer, \<open>n\<close> of them, each
  running to its end before the next one starts.
\<close>

fun pollTweets :: "env \<Rightarrow> nat \<Rightarrow> bot \<times> io \<Rightarrow> bot \<times> io" where
  "pollTweets env 0 bw = bw"
| "pollTweets env (Suc n) bw = pollTweets env n (processTweets env bw)"

section \<open>Reading a trace\<close>

text \<open>
  \<open>netPost e\<close> is the post whose processing performs the network operation \<open>e\<close>: a detail
  fetch, a media download or a send into the channel.
\<close>

fun netPost :: "event \<Rightarrow> string option" where
  "netPost (DetailRequest p) = Some p"
| "netPost (MediaRequest p url filename) = Some p"
| "netPost (SendEmbed p e) = Some p"
| "netPost (SendVideo p v f) = Some p"
| "netPost e = None"

text \<open>The events that a step from \<open>w\<close> to \<open>w'\<close> added to the trace.\<close>

definition added :: "io \<Rightarrow> io \<Rightarrow> event list" where
  "added w w' = drop (length (events w)) (events w')"

text \<open>
  \<open>postEvent p e\<close>: \<open>e\<close> is a pause or a network operation of the processing of post \<open>p\<close>.
\<close>

fun postEvent :: "string \<Rightarrow> event \<Rightarrow> bool" where
  "postEvent p (Delay d) = True"
| "postEvent p e = (netPost e = Some p)"

text \<open>\<open>grows P w w'\<close>: \<open>w'\<close> extends the trace of \<open>w\<close> by events that all satisfy \<open>P\<close>.\<close>

definition grows :: "(event \<Rightarrow> bool) \<Rightarrow> io \<Rightarrow> io \<Rightarrow> bool" where
  "grows P w w' = (\<exists>tr. events w' = events w @ tr \<and> (\<forall>e \<in> set tr. P e))"

text \<open>
  \<open>marksFirst tr\<close>: in \<open>tr\<close>, every network operation of the processing of a post comes
  after the mark of that post.
\<close>

definition marksFirst :: "event list \<Rightarrow> bool" where
  "marksFirst tr = (\<forall>pre e post p. tr = pre @ e # post \<and> netPost e = Some p \<longrightarrow> Mark p \<in> set pre)"

section \<open>Example inputs\<close>

text \<open>
  A post by a known user with no media of its own; three video variants; a detail record
  with a video in these variants and one photo; an environment in which the feed serves
  a given batch, the channel exists, the detail endpoint answers with a given record,
  downloads succeed or fail on every attempt as chosen, sends and file writes succeed and
  the clock stands at a given time; and a process that has run before.
\<close>

definition examplePost :: "string \<Rightarrow> int \<Rightarrow> tweet" where
  "examplePost ident time =
     \<lparr>t_id = ident, created_at = Some time,
      user = Some \<lparr>username = Some ''alice'', screen_name = None\<rparr>,
      referenced_tweets = [], in_reply_to_user_id = False, extended_entities_media = [],
      entities_media = [], entities_urls = [], media_keys = []\<rparr>"

definition exampleVariant :: "string \<Rightarrow> string \<Rightarrow> int \<Rightarrow> variant" where
  "exampleVariant kind url rate =
     \<lparr>v_type = Some kind, v_src = Some url, v_url = Some url, v_content_type = Some kind,
      v_bitrate = Some rate\<rparr>"

definition exampleVariants :: "variant list" where
  "exampleVariants =
     [exampleVariant ''video/mp4'' ''https://v/100.mp4'' 100,
      exampleVariant ''video/mp4'' ''https://v/500.mp4'' 500,
      exampleVariant ''video/webm'' ''https://v/900.webm'' 900]"

definition exampleDetail :: detail where
  "exampleDetail =
     \<lparr>d_video = Some exampleVariants, d_parent = None, d_mediaDetails = [],
      d_photos = [\<lparr>ph_url = Some ''https://pbs.twimg.com/media/x.jpg''\<rparr>]\<rparr>"

definition exampleEnv :: "tweet list \<Rightarrow> detail option \<Rightarrow> bool \<Rightarrow> int \<Rightarrow> env" where
  "exampleEnv tweets d downloads now =
     \<lparr>feedAt = (\<lambda>n k. Status 200 (DataArray tweets)),
      channelAt = (\<lambda>n. Inr True),
      detailAt = (\<lambda>n k. Status 200 d),
      mediaAt = (\<lambda>n k. if downloads then None else Some ''timeout''),
      sendAt = (\<lambda>n. None),
      writeAt = (\<lambda>n f. None),
      clockAt = (\<lambda>n. now)\<rparr>"

definition exampleBot :: bot where
  "exampleBot =
     \<lparr>lastProcessedIds = Map.empty, lastFetchTimestamp = Some 5,
      processed_ids_file = Some Map.empty, state_file = Some (Some 5)\<rparr>"

definition exampleIo :: io where
  "exampleIo = \<lparr>calls = 0, events = []\<rparr>"

text \<open>
  A video entry of the raw post's extended media with the three variants and a preview
  image, and the media state in which the processing of the example post starts.
\<close>

definition exampleMedia :: media where
  "exampleMedia =
     \<lparr>m_type = ''video'', m_variants = exampleVariants,
      m_media_url_https = Some ''https://pbs.twimg.com/thumb.jpg'', m_media_url = None\<rparr>"

definition exampleState :: media_state where
  "exampleState =
     \<lparr>hasFoundImage = False, hasFoundVideo = False, videoPath = None, videoFilename = None,
      embed = newEmbed (examplePost ''1'' 90000) \<lparr>username = Some ''alice'', screen_name = None\<rparr>\<rparr>"

section \<open>Reading a media state\<close>

text \<open>
  \<open>consistent ms\<close>: an image in the embed is flagged as found, and a found video comes
  with a truthy path and without a found image.
\<close>

definition consistent :: "media_state \<Rightarrow> bool" where
  "consistent ms =
     ((em_image (embed ms) \<noteq> None \<longrightarrow> hasFoundImage ms) \<and>
      (hasFoundVideo ms \<longrightarrow> \<not> hasFoundImage ms \<and> truthy (videoPath ms)))"

section \<open>Reading the inputs of the cascade\<close>

text \<open>
  \<open>downloadSucceeds env n\<close>: the download started as operation \<open>n\<close> succeeds on one of
  its attempts. \<open>detailHasVideo d\<close>: the detail record holds a video that the lookups of
  lines 313-396 read: an MP4 variant (by the test of line 317) in \<^verbatim>\<open>video\<close> or in
  \<^verbatim>\<open>parent.video\<close>, or a \<^verbatim>\<open>mediaDetails\<close> entry of type video or animated GIF with a
  variant of content type MP4. \<open>rawHasVideo tweet\<close>: the first entry of type video or
  animated GIF in the extended media of the raw post has a variant of content type MP4.
\<close>

definition downloadSucceeds :: "env \<Rightarrow> nat \<Rightarrow> bool" where
  "downloadSucceeds env n = list_ex (\<lambda>attempt. mediaAt env n attempt = None) [1..<Suc MAX_RETRIES]"

definition detailHasVideo :: "detail \<Rightarrow> bool" where
  "detailHasVideo d =
     ((case d_video d of Some vs \<Rightarrow> find isMp4Variant vs \<noteq> None | None \<Rightarrow> False) \<or>
      (case d_parent d of Some (Some vs) \<Rightarrow> find isMp4Variant vs \<noteq> None | _ \<Rightarrow> False) \<or>
      list_ex (\<lambda>m. (m_type m = ''video'' \<or> m_type m = ''animated_gif'') \<and>
                    mp4Variants (m_variants m) \<noteq> []) (d_mediaDetails d))"

definition rawHasVideo :: "tweet \<Rightarrow> bool" where
  "rawHasVideo tweet =
     (case find (\<lambda>m. m_type m = ''video'' \<or> m_type m = ''animated_gif'')
             (extended_entities_media tweet) of
        Some videoMedia \<Rightarrow> mp4Variants (m_variants videoMedia) \<noteq> []
      | None \<Rightarrow> False)"

text \<open>
  \<open>rounds delay a k\<close> is the trace of the failed attempts \<open>a, \<dots>, k - 1\<close>, each followed
  by its pause; it is used to state what \<open>withRetry\<close> records.
\<close>

definition rounds :: "nat \<Rightarrow> nat \<Rightarrow> nat \<Rightarrow> step list" where
  "rounds delay a k = concat (map (\<lambda>i. [Call i, Wait delay]) [a..<k])"

section \<open>Properties of the retry executor\<close>

declare withRetry_loop.simps [simp del]



lemma rounds_step: "a < k \<Longrightarrow> [Call a, Wait d] @ rounds d (Suc a) k = rounds d a k"
  by (simp add: rounds_def upt_conv_Cons)

lemma rounds_empty: "rounds d a a = []"
  by (simp add: rounds_def)

lemma delays_append: "delays (xs @ ys) = delays xs + delays ys"
  by (simp add: delays_def)

lemma delays_rounds: "delays (rounds d a k) = k - a"
proof (induction k)
  case 0
  then show ?case by (simp add: rounds_def delays_def)
next
  case (Suc k)
  show ?case
  proof (cases "a \<le> k")
    case True
    then have "rounds d a (Suc k) = rounds d a k @ [Call k, Wait d]"
      by (simp add: rounds_def)
    with Suc True show ?thesis by (simp add: delays_append) (simp add: delays_def)
  next
    case False
    then show ?thesis by (simp add: rounds_def delays_def)
  qed
qed

lemma withRetry_loop_succeeds:
  "attempt \<le> k \<Longrightarrow> k \<le> maxRetries \<Longrightarrow> (\<forall>i. attempt \<le> i \<and> i < k \<longrightarrow> isl (fn i)) \<Longrightarrow>
   fn k = Inr v \<Longrightarrow>
   withRetry_loop fn maxRetries delay attempt lastError tr
     = (Inr v, tr @ rounds delay attempt k @ [Call k])"
proof (induction fn maxRetries delay attempt lastError tr rule: withRetry_loop.induct)
  case (1 fn maxRetries delay attempt lastError tr)
  show ?case
  proof (cases "attempt = k")
    case True
    with 1 show ?thesis
      by (subst withRetry_loop.simps) (simp add: rounds_empty)
  next
    case False
    with 1 have lt: "attempt < k" and le: "attempt \<le> maxRetries" and ltm: "attempt < maxRetries" by auto
    from 1 lt obtain e where e: "fn attempt = Inl e"
      by (cases "fn attempt") auto
    have "withRetry_loop fn maxRetries delay (attempt + 1) (Some e)
            (tr @ [Call attempt] @ (if attempt < maxRetries then [Wait delay] else []))
          = (Inr v, (tr @ [Call attempt] @ (if attempt < maxRetries then [Wait delay] else []))
                @ rounds delay (attempt + 1) k @ [Call k])"
      using 1 lt le e by (intro "1.IH") auto
    then show ?thesis
      using e le ltm lt rounds_step [of attempt k delay]
      by (subst withRetry_loop.simps) simp
  qed
qed

lemma withRetry_loop_exhausts:
  "attempt \<le> maxRetries \<Longrightarrow> (\<forall>i. attempt \<le> i \<and> i \<le> maxRetries \<longrightarrow> fn i = Inl (err i)) \<Longrightarrow>
   withRetry_loop fn maxRetries delay attempt lastError tr
     = (Inl (Some (err maxRetries)), tr @ rounds delay attempt maxRetries @ [Call maxRetries])"
proof (induction fn maxRetries delay attempt lastError tr rule: withRetry_loop.induct)
  case (1 fn maxRetries delay attempt lastError tr)
  have e: "fn attempt = Inl (err attempt)" using 1 by auto
  show ?case
  proof (cases "attempt = maxRetries")
    case True
    then show ?thesis using e
      by (subst withRetry_loop.simps, simp, subst withRetry_loop.simps) (simp add: rounds_empty)
  next
    case False
    with 1 have lt: "attempt < maxRetries" by auto
    have "withRetry_loop fn maxRetries delay (attempt + 1) (Some (err attempt))
            (tr @ [Call attempt] @ (if attempt < maxRetries then [Wait delay] else []))
          = (Inl (Some (err maxRetries)),
             (tr @ [Call attempt] @ (if attempt < maxRetries then [Wait delay] else []))
                @ rounds delay (attempt + 1) maxRetries @ [Call maxRetries])"
      using 1 lt e by (intro "1.IH") auto
    then show ?thesis
      using e lt rounds_step [of attempt maxRetries delay]
      by (subst withRetry_loop.simps) simp
  qed
qed

text \<open>
  Claim C8. Run with a budget of \<open>N\<close> attempts: when the operation fails on the attempts
  before the \<open>k\<close>-th and succeeds on the \<open>k\<close>-th, with \<open>k \<le> N\<close>, the executor returns
  the success value and has paused exactly \<open>k - 1\<close> times; when the operation fails on
  all \<open>N\<close> attempts, the executor throws the error of the last attempt and has paused
  exactly \<open>N - 1\<close> times.
\<close>

theorem withRetry_budget:
  "(1 \<le> k \<and> k \<le> N \<and> (\<forall>i. 1 \<le> i \<and> i < k \<longrightarrow> isl (fn i)) \<and> fn k = Inr v
      \<longrightarrow> fst (withRetry fn N d) = Inr v \<and> delays (snd (withRetry fn N d)) = k - 1) \<and>
   (1 \<le> N \<and> (\<forall>i. 1 \<le> i \<and> i \<le> N \<longrightarrow> fn i = Inl (err i))
      \<longrightarrow> fst (withRetry fn N d) = Inl (Some (err N)) \<and> delays (snd (withRetry fn N d)) = N - 1)"
proof (intro conjI impI)
  assume a: "1 \<le> k \<and> k \<le> N \<and> (\<forall>i. 1 \<le> i \<and> i < k \<longrightarrow> isl (fn i)) \<and> fn k = Inr v"
  then have eq: "withRetry fn N d = (Inr v, [] @ rounds d 1 k @ [Call k])"
    unfolding withRetry_def by (intro withRetry_loop_succeeds) auto
  show "fst (withRetry fn N d) = Inr v" by (simp add: eq)
  show "delays (snd (withRetry fn N d)) = k - 1"
    by (simp add: eq delays_append delays_rounds) (simp add: delays_def)
next
  assume a: "1 \<le> N \<and> (\<forall>i. 1 \<le> i \<and> i \<le> N \<longrightarrow> fn i = Inl (err i))"
  then have eq: "withRetry fn N d = (Inl (Some (err N)), [] @ rounds d 1 N @ [Call N])"
    unfolding withRetry_def by (intro withRetry_loop_exhausts) auto
  show "fst (withRetry fn N d) = Inl (Some (err N))" by (simp add: eq)
  show "delays (snd (withRetry fn N d)) = N - 1"
    by (simp add: eq delays_append delays_rounds) (simp add: delays_def)
qed

theorem withRetry_budget_witness:
  "fst (withRetry (\<lambda>k. if k < 3 then Inl k else Inr ''ok'') 3 1000) = Inr ''ok'' \<and>
   delays (snd (withRetry (\<lambda>k. if k < 3 then Inl k else Inr ''ok'') 3 1000)) = 2 \<and>
   fst (withRetry (\<lambda>k. Inl (10 * k) :: nat + string) 3 1000) = Inl (Some 30) \<and>
   delays (snd (withRetry (\<lambda>k. Inl (10 * k) :: nat + string) 3 1000)) = 2"
  using withRetry_budget [of 3 3 "\<lambda>k. if k < 3 then Inl k else Inr ''ok''" "''ok''" 1000 "\<lambda>k. k"]
    withRetry_budget [of 1 3 "\<lambda>k. Inl (10 * k) :: nat + string" "''ok''" 1000 "\<lambda>k. 10 * k"]
  by simp

section \<open>The trace of the processing of one post\<close>

lemma grows_refl: "grows P w w"
  by (simp add: grows_def)

lemma grows_trans: "grows P w w1 \<Longrightarrow> grows P w1 w2 \<Longrightarrow> grows P w w2"
  by (auto simp: grows_def)

lemma grows_mono: "grows P w w' \<Longrightarrow> (\<And>e. P e \<Longrightarrow> Q e) \<Longrightarrow> grows Q w w'"
  by (auto simp: grows_def)

lemma grows_emit: "P e \<Longrightarrow> grows P w (emit e w)"
  by (simp add: grows_def emit_def)

lemma grows_added: "grows P w w' \<Longrightarrow> events w' = events w @ added w w' \<and> (\<forall>e \<in> set (added w w'). P e)"
  by (auto simp: grows_def added_def)

lemma grows_retried: "P req \<Longrightarrow> (\<And>d. P (Delay d)) \<Longrightarrow> grows P w (retried req steps w)"
  by (auto simp: grows_def retried_def split: step.splits)

lemma grows_fetchSingleTweet:
  "fetchSingleTweet env p w = (r, w') \<Longrightarrow> grows (postEvent p) w w'"
  by (auto simp: fetchSingleTweet_def split: prod.splits intro!: grows_retried)

lemma grows_downloadMedia:
  "downloadMedia env p url filename w = (r, w') \<Longrightarrow> grows (postEvent p) w w'"
  by (auto simp: downloadMedia_def split: prod.splits intro!: grows_retried)

lemma grows_channelSend:
  "P message \<Longrightarrow> channelSend env message w = (r, w') \<Longrightarrow> grows P w w'"
  by (auto simp: channelSend_def grows_def)

lemma grows_directVideo:
  "directVideo env tweet filename n vs ms w = (c, ms', w') \<Longrightarrow> grows (postEvent (t_id tweet)) w w'"
  by (auto simp: directVideo_def Let_def grows_refl split: if_splits option.splits prod.splits sum.splits
        dest: grows_downloadMedia)

lemma grows_videoCase1:
  "videoCase1 env tweet d ms w = (c, ms', w') \<Longrightarrow> grows (postEvent (t_id tweet)) w w'"
  by (auto simp: videoCase1_def grows_refl split: if_splits option.splits dest: grows_directVideo)

lemma grows_videoCase2:
  "videoCase2 env tweet d ms w = (c, ms', w') \<Longrightarrow> grows (postEvent (t_id tweet)) w w'"
  by (auto simp: videoCase2_def grows_refl split: if_splits option.splits dest: grows_directVideo)

lemma grows_mediaDetailsVideo:
  "mediaDetailsVideo env tweet ms_list ms w = (c, ms', w') \<Longrightarrow> grows (postEvent (t_id tweet)) w w'"
proof (induction ms_list arbitrary: ms w)
  case Nil
  then show ?case by (simp add: grows_refl)
next
  case (Cons m rest)
  then show ?case
    by (auto split: if_splits list.splits prod.splits sum.splits
          dest!: grows_downloadMedia intro: grows_trans)
qed

lemma grows_videoCase3:
  "videoCase3 env tweet d ms w = (c, ms', w') \<Longrightarrow> grows (postEvent (t_id tweet)) w w'"
  by (auto simp: videoCase3_def grows_refl split: if_splits dest: grows_mediaDetailsVideo)

lemma grows_detailMedia:
  "detailMedia env tweet d ms w = (c, ms', w') \<Longrightarrow> grows (postEvent (t_id tweet)) w w'"
  by (auto simp: detailMedia_def split: prod.splits completion.splits
        dest!: grows_videoCase1 grows_videoCase2 grows_videoCase3 intro: grows_trans)

lemma grows_detailTier:
  "detailTier env tweet ms w = (ms', w') \<Longrightarrow> grows (postEvent (t_id tweet)) w w'"
  by (auto simp: detailTier_def split: prod.splits sum.splits option.splits
        dest!: grows_fetchSingleTweet grows_detailMedia intro: grows_trans)

lemma grows_extendedVideo:
  "extendedVideo env tweet ms w = (ms', w') \<Longrightarrow> grows (postEvent (t_id tweet)) w w'"
  by (auto simp: extendedVideo_def grows_refl split: option.splits list.splits prod.splits sum.splits
        dest!: grows_downloadMedia)

lemma grows_fallbackMedia:
  "fallbackMedia env tweet ms w = (ms', w') \<Longrightarrow> grows (postEvent (t_id tweet)) w w'"
  by (auto simp: fallbackMedia_def extendedEntities_def grows_refl split: if_splits prod.splits
        dest!: grows_extendedVideo)

lemma grows_resolveMedia:
  "resolveMedia env tweet ms w = (ms', w') \<Longrightarrow> grows (postEvent (t_id tweet)) w w'"
  by (auto simp: resolveMedia_def split: prod.splits
        dest!: grows_detailTier grows_fallbackMedia intro: grows_trans)

lemma grows_processTweet:
  "grows (postEvent (t_id tweet)) w (processTweet env tweet w)"
proof (cases "user tweet")
  case None
  then show ?thesis by (simp add: processTweet_def grows_refl)
next
  case (Some u)
  obtain ms w1 where r: "resolveMedia env tweet
                  \<lparr>hasFoundImage = False, hasFoundVideo = False, videoPath = None,
                   videoFilename = None, embed = newEmbed tweet u\<rparr> w = (ms, w1)"
    by (cases "resolveMedia env tweet
                  \<lparr>hasFoundImage = False, hasFoundVideo = False, videoPath = None,
                   videoFilename = None, embed = newEmbed tweet u\<rparr> w") auto
  obtain r2 w2 where s1: "channelSend env (SendEmbed (t_id tweet) (embed (replyField tweet ms))) w1 = (r2, w2)"
    by (cases "channelSend env (SendEmbed (t_id tweet) (embed (replyField tweet ms))) w1") auto
  obtain r3 w3 where s2: "channelSend env (SendVideo (t_id tweet) (videoPath ms) (videoFilename ms)) w2 = (r3, w3)"
    by (cases "channelSend env (SendVideo (t_id tweet) (videoPath ms) (videoFilename ms)) w2") auto
  have g1: "grows (postEvent (t_id tweet)) w w1" using r by (rule grows_resolveMedia)
  have g2: "grows (postEvent (t_id tweet)) w1 w2" using s1 by (intro grows_channelSend) auto
  have g3: "grows (postEvent (t_id tweet)) w2 w3" using s2 by (intro grows_channelSend) auto
  show ?thesis
    using Some r s1 s2 g1 g2 g3
    by (auto simp: processTweet_def split: option.splits intro: grows_trans)
qed

section \<open>The loop over the recent posts\<close>

lemma added_trans:
  "grows P w w1 \<Longrightarrow> grows Q w1 w2 \<Longrightarrow> added w w2 = added w w1 @ added w1 w2"
  by (auto simp: grows_def added_def)

lemma added_self: "added w w = []"
  by (simp add: added_def)

lemma added_emit: "added w (emit e w) = [e]"
  by (simp add: added_def emit_def)

lemma marksFirst_quiet: "(\<forall>e \<in> set tr. netPost e = None) \<Longrightarrow> marksFirst tr"
  by (fastforce simp: marksFirst_def)

lemma marksFirst_append: "marksFirst xs \<Longrightarrow> marksFirst ys \<Longrightarrow> marksFirst (xs @ ys)"
  unfolding marksFirst_def
proof (intro allI impI)
  fix pre e post p
  assume xs: "\<forall>pre e post p. xs = pre @ e # post \<and> netPost e = Some p \<longrightarrow> Mark p \<in> set pre"
    and ys: "\<forall>pre e post p. ys = pre @ e # post \<and> netPost e = Some p \<longrightarrow> Mark p \<in> set pre"
    and h: "xs @ ys = pre @ e # post \<and> netPost e = Some p"
  from h have "(\<exists>us. xs = pre @ us \<and> us @ ys = e # post) \<or> (\<exists>us. xs @ us = pre \<and> ys = us @ e # post)"
    by (simp add: append_eq_append_conv2) blast
  then show "Mark p \<in> set pre"
  proof
    assume "\<exists>us. xs = pre @ us \<and> us @ ys = e # post"
    then obtain us where us: "xs = pre @ us" "us @ ys = e # post" by blast
    show ?thesis
    proof (cases us)
      case Nil
      with us have "ys = [] @ e # post" by simp
      with ys h have "Mark p \<in> set []" by blast
      then show ?thesis by simp
    next
      case (Cons u us')
      with us have "xs = pre @ e # us'" by simp
      with xs h show ?thesis by blast
    qed
  next
    assume "\<exists>us. xs @ us = pre \<and> ys = us @ e # post"
    then obtain us where us: "xs @ us = pre" "ys = us @ e # post" by blast
    with ys h have "Mark p \<in> set us" by blast
    with us show ?thesis by auto
  qed
qed

lemma marksFirst_post: "(\<forall>e \<in> set tr. postEvent p e) \<Longrightarrow> marksFirst (Mark p # tr)"
  unfolding marksFirst_def
proof (intro allI impI)
  fix pre e post q
  assume a: "\<forall>e \<in> set tr. postEvent p e" and h: "Mark p # tr = pre @ e # post \<and> netPost e = Some q"
  show "Mark q \<in> set pre"
  proof (cases pre)
    case Nil
    with h show ?thesis by auto
  next
    case (Cons x pre')
    with h have x: "x = Mark p" and tr: "tr = pre' @ e # post" by auto
    with a have "postEvent p e" by auto
    with h have "q = p" by (cases e) auto
    with x Cons show ?thesis by simp
  qed
qed

lemma tweetLoop_ids:
  "tweetLoop env ts (ids, w) = (ids', w') \<Longrightarrow>
   ids' k = (if k \<in> t_id ` set ts \<and> \<not> isProcessed ids k then Some True else ids k)"
proof (induction ts arbitrary: ids w)
  case Nil
  then show ?case by simp
next
  case (Cons t rest)
  show ?case
  proof (cases "isProcessed ids (t_id t)")
    case True
    with Cons.prems have "tweetLoop env rest (ids, w) = (ids', w')" by simp
    from Cons.IH [OF this] True show ?thesis by (auto simp: isProcessed_def)
  next
    case False
    with Cons.prems have "tweetLoop env rest (ids(t_id t \<mapsto> True), processTweet env t (emit (Mark (t_id t)) w)) = (ids', w')"
      by simp
    from Cons.IH [OF this] False show ?thesis by (auto simp: isProcessed_def split: if_splits)
  qed
qed

text \<open>What the loop adds to the trace: marks and post events of posts not processed before.\<close>

lemma tweetLoop_trace:
  "tweetLoop env ts (ids, w) = (ids', w') \<Longrightarrow>
   grows (\<lambda>e. \<exists>t \<in> set ts. \<not> isProcessed ids (t_id t) \<and> (e = Mark (t_id t) \<or> postEvent (t_id t) e)) w w'
   \<and> marksFirst (added w w')"
proof (induction ts arbitrary: ids w)
  case Nil
  then show ?case by (simp add: grows_refl added_self marksFirst_quiet)
next
  case (Cons t rest)
  let ?P = "\<lambda>ts ids e. \<exists>t \<in> set ts. \<not> isProcessed ids (t_id t) \<and> (e = Mark (t_id t) \<or> postEvent (t_id t) e)"
  show ?case
  proof (cases "isProcessed ids (t_id t)")
    case True
    with Cons.prems have "tweetLoop env rest (ids, w) = (ids', w')" by simp
    from Cons.IH [OF this] have g: "grows (?P rest ids) w w'" and m: "marksFirst (added w w')" by auto
    from g have "grows (?P (t # rest) ids) w w'" by (rule grows_mono) auto
    with m show ?thesis by simp
  next
    case False
    let ?w1 = "emit (Mark (t_id t)) w"
    let ?w2 = "processTweet env t ?w1"
    let ?ids1 = "ids(t_id t \<mapsto> True)"
    from False Cons.prems have "tweetLoop env rest (?ids1, ?w2) = (ids', w')" by simp
    from Cons.IH [OF this] have g: "grows (?P rest ?ids1) ?w2 w'" and m: "marksFirst (added ?w2 w')"
      by blast+
    have g1: "grows (\<lambda>e. e = Mark (t_id t)) w ?w1" by (rule grows_emit) simp
    have g2: "grows (postEvent (t_id t)) ?w1 ?w2" by (rule grows_processTweet)
    have g12: "grows (?P (t # rest) ids) w ?w2"
      using False by (intro grows_trans [OF grows_mono [OF g1] grows_mono [OF g2]]) auto
    have g3: "grows (?P (t # rest) ids) ?w2 w'"
      using g by (rule grows_mono) (auto simp: isProcessed_def split: if_splits)
    have a: "added w w' = Mark (t_id t) # added ?w1 ?w2 @ added ?w2 w'"
      using added_trans [OF g12 g3] added_trans [OF g1 g2] by (simp add: added_emit)
    have "marksFirst (Mark (t_id t) # added ?w1 ?w2)"
      using grows_added [OF g2] by (intro marksFirst_post) simp
    then have "marksFirst ((Mark (t_id t) # added ?w1 ?w2) @ added ?w2 w')"
      using m by (rule marksFirst_append)
    with a grows_trans [OF g12 g3] show ?thesis by simp
  qed
qed

lemma markAll_ids:
  "markAll ts (ids, w) = (ids', w') \<Longrightarrow> ids' k = (if k \<in> t_id ` set ts then Some True else ids k)"
  by (induction ts arbitrary: ids w) auto

lemma markAll_trace:
  "markAll ts (ids, w) = (ids', w') \<Longrightarrow> grows (\<lambda>e. \<exists>t \<in> set ts. e = Mark (t_id t)) w w'"
proof (induction ts arbitrary: ids w)
  case Nil
  then show ?case by (simp add: grows_refl)
next
  case (Cons t rest)
  then have "markAll rest (ids(t_id t \<mapsto> True), emit (Mark (t_id t)) w) = (ids', w')" by simp
  from Cons.IH [OF this]
  have "grows (\<lambda>e. \<exists>t \<in> set (t # rest). e = Mark (t_id t)) (emit (Mark (t_id t)) w) w'"
    by (rule grows_mono) auto
  moreover have "grows (\<lambda>e. \<exists>t \<in> set (t # rest). e = Mark (t_id t)) w (emit (Mark (t_id t)) w)"
    by (rule grows_emit) simp
  ultimately show ?case by (blast intro: grows_trans)
qed

lemma fetchTweets_trace:
  "fetchTweets env w = (r, w') \<Longrightarrow> grows (\<lambda>e. e = FeedRequest \<or> (\<exists>d. e = Delay d)) w w'"
  by (auto simp: fetchTweets_def split: prod.splits intro!: grows_retried)

lemma channelFetch_trace:
  "channelFetch env w = (r, w') \<Longrightarrow> grows (\<lambda>e. e = ChannelFetch) w w'"
  by (auto simp: channelFetch_def grows_def)

lemma saveState_result:
  "saveState env (b, w) = (b', w') \<Longrightarrow>
   lastProcessedIds b' = lastProcessedIds b \<and> lastFetchTimestamp b' = lastFetchTimestamp b \<and>
   grows (\<lambda>e. \<exists>f. e = WriteFile f) w w' \<and> WriteFile PROCESSED_IDS_FILE \<in> set (added w w') \<and>
   (writeAt env (calls w) PROCESSED_IDS_FILE = None \<and> writeAt env (calls w) STATE_FILE = None \<longrightarrow>
      processed_ids_file b' = Some (lastProcessedIds b) \<and> state_file b' = Some (lastFetchTimestamp b))"
  by (auto simp: saveState_def Let_def emit_def grows_def added_def split: option.splits)

section \<open>One cycle\<close>

text \<open>The paths through one cycle.\<close>

lemma processTweets_cases:
  assumes "processTweets env (b, w) = (b', w')"
  obtains
    (FetchFailed) error where "fetchTweets env w = (Inl error, w')" "b' = b"
  | (NotArray) d where "fetchTweets env w = (Inr d, w')" "\<forall>tweets. d \<noteq> DataArray tweets" "b' = b"
  | (FirstRun) tweets w1 ids w2 where
      "fetchTweets env w = (Inr (DataArray tweets), w1)" "lastFetchTimestamp b = None"
      "markAll tweets (lastProcessedIds b, w1) = (ids, w2)"
      "saveState env (b\<lparr>lastProcessedIds := ids, lastFetchTimestamp := Some (clockAt env (calls w1))\<rparr>, w2)
         = (b', w')"
  | (NoChannel) tweets w1 r t where
      "fetchTweets env w = (Inr (DataArray tweets), w1)" "lastFetchTimestamp b = Some t"
      "channelFetch env w1 = (r, w')" "r \<noteq> Inr True" "b' = b"
  | (NoRecent) tweets w1 t where
      "fetchTweets env w = (Inr (DataArray tweets), w1)" "lastFetchTimestamp b = Some t"
      "channelFetch env w1 = (Inr True, w')" "recentTweets (clockAt env (calls w')) tweets = []"
      "b' = b\<lparr>lastFetchTimestamp := Some (clockAt env (calls w1))\<rparr>"
  | (Processed) tweets w1 w2 ids w3 t where
      "fetchTweets env w = (Inr (DataArray tweets), w1)" "lastFetchTimestamp b = Some t"
      "channelFetch env w1 = (Inr True, w2)" "recentTweets (clockAt env (calls w2)) tweets \<noteq> []"
      "tweetLoop env (recentTweets (clockAt env (calls w2)) tweets) (lastProcessedIds b, w2) = (ids, w3)"
      "saveState env (b\<lparr>lastProcessedIds := ids, lastFetchTimestamp := Some (clockAt env (calls w1))\<rparr>, w3)
         = (b', w')"
proof -
  obtain r w1 where f: "fetchTweets env w = (r, w1)" by (cases "fetchTweets env w") auto
  show ?thesis
  proof (cases r)
    case (Inl error)
    with f assms have "w' = w1" "b' = b" by (auto simp: processTweets_def)
    with f Inl show ?thesis by (intro FetchFailed) auto
  next
    case (Inr d)
    show ?thesis
    proof (cases "\<exists>tweets. d = DataArray tweets")
      case False
      with f Inr assms have "w' = w1" "b' = b"
        by (cases d; auto simp: processTweets_def)+
      with f Inr False show ?thesis by (intro NotArray) auto
    next
      case True
      then obtain tweets where d: "d = DataArray tweets" by blast
      note fd = f [unfolded Inr d]
      show ?thesis
      proof (cases "lastFetchTimestamp b")
        case None
        obtain ids w2 where m: "markAll tweets (lastProcessedIds b, w1) = (ids, w2)"
          by (cases "markAll tweets (lastProcessedIds b, w1)") auto
        have "saveState env (b\<lparr>lastProcessedIds := ids,
                lastFetchTimestamp := Some (clockAt env (calls w1))\<rparr>, w2) = (b', w')"
          using assms fd None m by (simp add: processTweets_def Let_def)
        then show ?thesis by (rule FirstRun [OF fd None m])
      next
        case (Some t)
        obtain c w2 where ch: "channelFetch env w1 = (c, w2)" by (cases "channelFetch env w1") auto
        show ?thesis
        proof (cases "c = Inr True")
          case False
          then have "processTweets env (b, w) = (b, w2)"
            using fd Some ch by (cases c) (auto simp: processTweets_def Let_def)
          with assms have eq: "w' = w2" "b' = b" by auto
          show ?thesis by (rule NoChannel [OF fd Some ch [folded eq(1)] False eq(2)])
        next
          case True
          note ch' = ch [unfolded True]
          show ?thesis
          proof (cases "recentTweets (clockAt env (calls w2)) tweets = []")
            case True
            with assms fd Some ch' have eq: "w' = w2"
              "b' = b\<lparr>lastFetchTimestamp := Some (clockAt env (calls w1))\<rparr>"
              by (auto simp: processTweets_def Let_def)
            show ?thesis
              by (rule NoRecent [OF fd Some ch' [folded eq(1)] True [folded eq(1)] eq(2)])
          next
            case False
            obtain ids w3 where l: "tweetLoop env (recentTweets (clockAt env (calls w2)) tweets)
                (lastProcessedIds b, w2) = (ids, w3)"
              by (cases "tweetLoop env (recentTweets (clockAt env (calls w2)) tweets)
                (lastProcessedIds b, w2)") auto
            have "saveState env (b\<lparr>lastProcessedIds := ids,
                lastFetchTimestamp := Some (clockAt env (calls w1))\<rparr>, w3) = (b', w')"
              using assms fd Some ch' False l by (simp add: processTweets_def Let_def)
            then show ?thesis by (rule Processed [OF fd Some ch' False l])
          qed
        qed
      qed
    qed
  qed
qed

lemma processTweets_grows:
  assumes "processTweets env (b, w) = (b', w')"
  shows "grows (\<lambda>e. True) w w'"
  using assms
proof (cases rule: processTweets_cases)
  case (FetchFailed error)
  then show ?thesis by (auto dest!: fetchTweets_trace intro: grows_mono)
next
  case (NotArray d)
  then show ?thesis by (auto dest!: fetchTweets_trace intro: grows_mono)
next
  case (FirstRun tweets w1 ids w2)
  have "grows (\<lambda>e. True) w w1" using FirstRun(1) by (auto dest!: fetchTweets_trace intro: grows_mono)
  moreover have "grows (\<lambda>e. True) w1 w2" using FirstRun(3) by (auto dest!: markAll_trace intro: grows_mono)
  moreover have "grows (\<lambda>e. True) w2 w'" using FirstRun(4) by (auto dest!: saveState_result intro: grows_mono)
  ultimately show ?thesis by (blast intro: grows_trans)
next
  case (NoChannel tweets w1 r t)
  have "grows (\<lambda>e. True) w w1" using NoChannel(1) by (auto dest!: fetchTweets_trace intro: grows_mono)
  moreover have "grows (\<lambda>e. True) w1 w'" using NoChannel(3) by (auto dest!: channelFetch_trace intro: grows_mono)
  ultimately show ?thesis by (blast intro: grows_trans)
next
  case (NoRecent tweets w1 t)
  have "grows (\<lambda>e. True) w w1" using NoRecent(1) by (auto dest!: fetchTweets_trace intro: grows_mono)
  moreover have "grows (\<lambda>e. True) w1 w'" using NoRecent(3) by (auto dest!: channelFetch_trace intro: grows_mono)
  ultimately show ?thesis by (blast intro: grows_trans)
next
  case (Processed tweets w1 w2 ids w3 t)
  have "grows (\<lambda>e. True) w w1" using Processed(1) by (auto dest!: fetchTweets_trace intro: grows_mono)
  moreover have "grows (\<lambda>e. True) w1 w2" using Processed(3) by (auto dest!: channelFetch_trace intro: grows_mono)
  moreover have "grows (\<lambda>e. True) w2 w3" using Processed(5) by (auto dest!: tweetLoop_trace intro: grows_mono)
  moreover have "grows (\<lambda>e. True) w3 w'" using Processed(6) by (auto dest!: saveState_result intro: grows_mono)
  ultimately show ?thesis by (blast intro: grows_trans)
qed

text \<open>
  The trace of a cycle in two parts: up to the end of the loop nothing is written to a
  file and marks come first; after it there is no network operation of a post.
\<close>

lemma processTweets_split:
  assumes "processTweets env (b, w) = (b', w')"
  shows "\<exists>xs ys. added w w' = xs @ ys \<and> marksFirst xs \<and> (\<forall>e \<in> set xs. \<forall>f. e \<noteq> WriteFile f) \<and>
           (\<forall>e \<in> set ys. netPost e = None)"
  using assms
proof (cases rule: processTweets_cases)
  case (FetchFailed error)
  from fetchTweets_trace [OF FetchFailed(1)] have "\<forall>e \<in> set (added w w'). netPost e = None"
    by (auto dest!: grows_added)
  then show ?thesis by (intro exI [of _ "[]"] exI [of _ "added w w'"]) (simp add: marksFirst_quiet)
next
  case (NotArray d)
  from fetchTweets_trace [OF NotArray(1)] have "\<forall>e \<in> set (added w w'). netPost e = None"
    by (auto dest!: grows_added)
  then show ?thesis by (intro exI [of _ "[]"] exI [of _ "added w w'"]) (simp add: marksFirst_quiet)
next
  case (FirstRun tweets w1 ids w2)
  note g1 = fetchTweets_trace [OF FirstRun(1)]
  note g2 = markAll_trace [OF FirstRun(3)]
  from saveState_result [OF FirstRun(4)] have g3: "grows (\<lambda>e. \<exists>f. e = WriteFile f) w2 w'" by simp
  have "grows (\<lambda>e. netPost e = None) w w1" using g1 by (rule grows_mono) auto
  moreover have "grows (\<lambda>e. netPost e = None) w1 w2" using g2 by (rule grows_mono) auto
  moreover have "grows (\<lambda>e. netPost e = None) w2 w'" using g3 by (rule grows_mono) auto
  ultimately have "grows (\<lambda>e. netPost e = None) w w'" by (blast intro: grows_trans)
  then have "\<forall>e \<in> set (added w w'). netPost e = None" by (auto dest!: grows_added)
  then show ?thesis by (intro exI [of _ "[]"] exI [of _ "added w w'"]) (simp add: marksFirst_quiet)
next
  case (NoChannel tweets w1 r t)
  note g1 = fetchTweets_trace [OF NoChannel(1)]
  note g2 = channelFetch_trace [OF NoChannel(3)]
  have "grows (\<lambda>e. netPost e = None) w w1" using g1 by (rule grows_mono) auto
  moreover have "grows (\<lambda>e. netPost e = None) w1 w'" using g2 by (rule grows_mono) auto
  ultimately have "grows (\<lambda>e. netPost e = None) w w'" by (blast intro: grows_trans)
  then have "\<forall>e \<in> set (added w w'). netPost e = None" by (auto dest!: grows_added)
  then show ?thesis by (intro exI [of _ "[]"] exI [of _ "added w w'"]) (simp add: marksFirst_quiet)
next
  case (NoRecent tweets w1 t)
  note g1 = fetchTweets_trace [OF NoRecent(1)]
  note g2 = channelFetch_trace [OF NoRecent(3)]
  have "grows (\<lambda>e. netPost e = None) w w1" using g1 by (rule grows_mono) auto
  moreover have "grows (\<lambda>e. netPost e = None) w1 w'" using g2 by (rule grows_mono) auto
  ultimately have "grows (\<lambda>e. netPost e = None) w w'" by (blast intro: grows_trans)
  then have "\<forall>e \<in> set (added w w'). netPost e = None" by (auto dest!: grows_added)
  then show ?thesis by (intro exI [of _ "[]"] exI [of _ "added w w'"]) (simp add: marksFirst_quiet)
next
  case (Processed tweets w1 w2 ids w3 t)
  note g1 = fetchTweets_trace [OF Processed(1)]
  note g2 = channelFetch_trace [OF Processed(3)]
  from tweetLoop_trace [OF Processed(5)]
  have g3: "grows (\<lambda>e. \<exists>t \<in> set (recentTweets (clockAt env (calls w2)) tweets).
              \<not> isProcessed (lastProcessedIds b) (t_id t) \<and> (e = Mark (t_id t) \<or> postEvent (t_id t) e)) w2 w3"
    and m3: "marksFirst (added w2 w3)" by auto
  from saveState_result [OF Processed(6)] have g4: "grows (\<lambda>e. \<exists>f. e = WriteFile f) w3 w'" by simp
  let ?Q = "\<lambda>e. \<forall>f. e \<noteq> WriteFile f"
  have q1: "grows ?Q w w1" using g1 by (rule grows_mono) auto
  have q2: "grows ?Q w1 w2" using g2 by (rule grows_mono) auto
  have q3: "grows ?Q w2 w3" using g3 by (rule grows_mono) auto
  have q12: "grows ?Q w w2" using q1 q2 by (rule grows_trans)
  have q123: "grows ?Q w w3" using q12 q3 by (rule grows_trans)
  have a: "added w w' = (added w w1 @ added w1 w2 @ added w2 w3) @ added w3 w'"
    using added_trans [OF q123 g4] added_trans [OF q12 q3] added_trans [OF q1 q2] by simp
  have m1: "marksFirst (added w w1)"
    using grows_added [OF g1] by (intro marksFirst_quiet) auto
  have m2: "marksFirst (added w1 w2)"
    using grows_added [OF g2] by (intro marksFirst_quiet) auto
  have m: "marksFirst (added w w1 @ added w1 w2 @ added w2 w3)"
    by (intro marksFirst_append m1 m2 m3)
  have nw: "\<forall>e \<in> set (added w w1 @ added w1 w2 @ added w2 w3). \<forall>f. e \<noteq> WriteFile f"
    using grows_added [OF q1] grows_added [OF q2] grows_added [OF q3] by auto
  have np: "\<forall>e \<in> set (added w3 w'). netPost e = None"
    using grows_added [OF g4] by auto
  show ?thesis
    using a m nw np by blast
qed

text \<open>Which network operations of posts a cycle can contain.\<close>

lemma processTweets_posts:
  assumes "processTweets env (b, w) = (b', w')" and "e \<in> set (added w w')" and "netPost e = Some p"
  shows "\<not> isProcessed (lastProcessedIds b) p \<and>
         (\<exists>tweets w1 w2 t0 t. fetchTweets env w = (Inr (DataArray tweets), w1) \<and>
            lastFetchTimestamp b = Some t0 \<and> channelFetch env w1 = (Inr True, w2) \<and>
            t \<in> set (recentTweets (clockAt env (calls w2)) tweets) \<and> t_id t = p)"
  using assms(1)
proof (cases rule: processTweets_cases)
  case (FetchFailed error)
  from fetchTweets_trace [OF FetchFailed(1)] assms(2,3) show ?thesis
    by (auto dest!: grows_added)
next
  case (NotArray d)
  from fetchTweets_trace [OF NotArray(1)] assms(2,3) show ?thesis
    by (auto dest!: grows_added)
next
  case (FirstRun tweets w1 ids w2)
  note g1 = fetchTweets_trace [OF FirstRun(1)]
  note g2 = markAll_trace [OF FirstRun(3)]
  from saveState_result [OF FirstRun(4)] have g3: "grows (\<lambda>e. \<exists>f. e = WriteFile f) w2 w'" by simp
  have "grows (\<lambda>e. netPost e = None) w w1" using g1 by (rule grows_mono) auto
  moreover have "grows (\<lambda>e. netPost e = None) w1 w2" using g2 by (rule grows_mono) auto
  moreover have "grows (\<lambda>e. netPost e = None) w2 w'" using g3 by (rule grows_mono) auto
  ultimately have "grows (\<lambda>e. netPost e = None) w w'" by (blast intro: grows_trans)
  with assms(2,3) show ?thesis by (auto dest!: grows_added)
next
  case (NoChannel tweets w1 r t)
  note g1 = fetchTweets_trace [OF NoChannel(1)]
  note g2 = channelFetch_trace [OF NoChannel(3)]
  have "grows (\<lambda>e. netPost e = None) w w1" using g1 by (rule grows_mono) auto
  moreover have "grows (\<lambda>e. netPost e = None) w1 w'" using g2 by (rule grows_mono) auto
  ultimately have "grows (\<lambda>e. netPost e = None) w w'" by (blast intro: grows_trans)
  with assms(2,3) show ?thesis by (auto dest!: grows_added)
next
  case (NoRecent tweets w1 t)
  note g1 = fetchTweets_trace [OF NoRecent(1)]
  note g2 = channelFetch_trace [OF NoRecent(3)]
  have "grows (\<lambda>e. netPost e = None) w w1" using g1 by (rule grows_mono) auto
  moreover have "grows (\<lambda>e. netPost e = None) w1 w'" using g2 by (rule grows_mono) auto
  ultimately have "grows (\<lambda>e. netPost e = None) w w'" by (blast intro: grows_trans)
  with assms(2,3) show ?thesis by (auto dest!: grows_added)
next
  case (Processed tweets w1 w2 ids w3 t0)
  let ?R = "\<lambda>e. \<forall>p. netPost e = Some p \<longrightarrow>
     (\<exists>t \<in> set (recentTweets (clockAt env (calls w2)) tweets).
        \<not> isProcessed (lastProcessedIds b) (t_id t) \<and> t_id t = p)"
  note g1 = fetchTweets_trace [OF Processed(1)]
  note g2 = channelFetch_trace [OF Processed(3)]
  from tweetLoop_trace [OF Processed(5)]
  have g3: "grows (\<lambda>e. \<exists>t \<in> set (recentTweets (clockAt env (calls w2)) tweets).
              \<not> isProcessed (lastProcessedIds b) (t_id t) \<and> (e = Mark (t_id t) \<or> postEvent (t_id t) e)) w2 w3"
    by auto
  from saveState_result [OF Processed(6)] have g4: "grows (\<lambda>e. \<exists>f. e = WriteFile f) w3 w'" by simp
  have "grows ?R w w1" using g1 by (rule grows_mono) auto
  moreover have "grows ?R w1 w2" using g2 by (rule grows_mono) auto
  moreover have "grows ?R w2 w3" using g3
  proof (rule grows_mono)
    fix e
    assume "\<exists>t \<in> set (recentTweets (clockAt env (calls w2)) tweets).
              \<not> isProcessed (lastProcessedIds b) (t_id t) \<and> (e = Mark (t_id t) \<or> postEvent (t_id t) e)"
    then show "?R e" by (cases e) auto
  qed
  moreover have "grows ?R w3 w'" using g4 by (rule grows_mono) auto
  ultimately have "grows ?R w w'" by (blast intro: grows_trans)
  with assms(2,3) have "\<exists>t \<in> set (recentTweets (clockAt env (calls w2)) tweets).
        \<not> isProcessed (lastProcessedIds b) (t_id t) \<and> t_id t = p"
    by (auto dest!: grows_added)
  with Processed(1,2,3) show ?thesis by blast
qed

text \<open>The identifiers after a cycle.\<close>

lemma processTweets_ids:
  assumes "processTweets env (b, w) = (b', w')"
  shows "lastProcessedIds b' k = lastProcessedIds b k \<or>
         (lastProcessedIds b' k = Some True \<and> \<not> isProcessed (lastProcessedIds b) k \<and>
          (\<exists>tweets w1. fetchTweets env w = (Inr (DataArray tweets), w1) \<and>
             (lastFetchTimestamp b = None \<and> k \<in> t_id ` set tweets \<or>
              (\<exists>w2. channelFetch env w1 = (Inr True, w2) \<and>
                 k \<in> t_id ` set (recentTweets (clockAt env (calls w2)) tweets)))))"
  using assms
proof (cases rule: processTweets_cases)
  case (FirstRun tweets w1 ids w2)
  from saveState_result [OF FirstRun(4)] have "lastProcessedIds b' = ids" by simp
  with markAll_ids [OF FirstRun(3), of k] FirstRun(1,2) show ?thesis
    by (auto simp: isProcessed_def)
next
  case (Processed tweets w1 w2 ids w3 t0)
  from saveState_result [OF Processed(6)] have "lastProcessedIds b' = ids" by simp
  with tweetLoop_ids [OF Processed(5), of k] Processed(1,3) show ?thesis
    by (auto split: if_splits)
qed auto

lemma processTweets_keeps:
  "processTweets env (b, w) = (b', w') \<Longrightarrow> isProcessed (lastProcessedIds b) p \<Longrightarrow>
   isProcessed (lastProcessedIds b') p"
  using processTweets_ids [of env b w b' w' p] by (auto simp: isProcessed_def)

section \<open>Posts that were already processed\<close>

lemmas cycle_defs = processTweets_def fetchTweets_def channelFetch_def withRetry_def withRetry_loop.simps
  MAX_RETRIES_def RETRY_DELAY_def retried_def recentTweets_def sortedTweets_def isRecent_def ONE_MINUTE_def
  saveState_def emit_def added_def Let_def isProcessed_def

lemmas post_defs = processTweet_def resolveMedia_def detailTier_def fetchSingleTweet_def detailMedia_def
  videoCase1_def videoCase2_def videoCase3_def directVideo_def downloadMedia_def videoDownloaded_def
  isMp4Variant_def endsWith_def mp4Variants_def detailImages_def imageFound_def setImage_def addNote_def
  truthy_def orElse_def includesOpt_def fallbackMedia_def extendedEntities_def extendedVideo_def
  extendedImage_def entitiesMedia_def entitiesUrls_def attachmentsNote_def channelSend_def newEmbed_def
  usernameOf_def tweetType_def replyField_def CACHE_DIR_def

lemmas example_defs = examplePost_def exampleVariant_def exampleVariants_def exampleDetail_def
  exampleEnv_def exampleBot_def exampleIo_def

lemma processTweets_quiet:
  assumes "processTweets env (b, w) = (b', w')" and "isProcessed (lastProcessedIds b) p"
  shows "grows (\<lambda>e. netPost e \<noteq> Some p) w w'"
proof -
  from grows_added [OF processTweets_grows [OF assms(1)]]
  have "events w' = events w @ added w w'" by simp
  moreover have "\<forall>e \<in> set (added w w'). netPost e \<noteq> Some p"
    using processTweets_posts [OF assms(1)] assms(2) by blast
  ultimately show ?thesis unfolding grows_def by blast
qed

lemma pollTweets_quiet:
  "pollTweets env n (b, w) = (b', w') \<Longrightarrow> isProcessed (lastProcessedIds b) p \<Longrightarrow>
   isProcessed (lastProcessedIds b') p \<and> grows (\<lambda>e. netPost e \<noteq> Some p) w w'"
proof (induction n arbitrary: b w)
  case 0
  then show ?case by (simp add: grows_refl)
next
  case (Suc n)
  obtain b1 w1 where c: "processTweets env (b, w) = (b1, w1)" by (cases "processTweets env (b, w)") auto
  with Suc.prems have r: "pollTweets env n (b1, w1) = (b', w')" by simp
  have p1: "isProcessed (lastProcessedIds b1) p" using c Suc.prems(2) by (rule processTweets_keeps)
  from Suc.IH [OF r p1] processTweets_quiet [OF c Suc.prems(2)] show ?case
    by (blast intro: grows_trans)
qed

text \<open>
  Claim C3. A post whose identifier is already in the set of processed identifiers when
  the loop examines it is passed over without any effect, and through any number of
  cycles no network operation (in particular no send) is performed for an identifier that
  is in the set, which it never leaves.
\<close>

theorem processed_never_republished:
  assumes "isProcessed (lastProcessedIds b) p" and "pollTweets env n (b, w) = (b', w')"
  shows "(\<forall>e \<in> set (added w w'). netPost e \<noteq> Some p) \<and> isProcessed (lastProcessedIds b') p \<and>
         (\<forall>tweet rest ids v. isProcessed ids (t_id tweet) \<longrightarrow>
            tweetLoop env (tweet # rest) (ids, v) = tweetLoop env rest (ids, v))"
  using pollTweets_quiet [OF assms(2,1)] by (auto dest!: grows_added)

theorem processed_never_republished_witness:
  "isProcessed (lastProcessedIds (exampleBot\<lparr>lastProcessedIds := [''1'' \<mapsto> True]\<rparr>)) ''1'' \<and>
   \<not> (\<exists>e \<in> set (added exampleIo
          (snd (pollTweets (exampleEnv [examplePost ''1'' 90000, examplePost ''2'' 95000] None True 100000) 2
                  (exampleBot\<lparr>lastProcessedIds := [''1'' \<mapsto> True]\<rparr>, exampleIo)))).
        netPost e = Some ''1'') \<and>
   SendEmbed ''2'' \<lparr>em_url = ''https://twitter.com/alice/status/2'', em_type = Tweet, em_notes = [],
      em_image = None, em_reply = False\<rparr>
     \<in> set (added exampleIo
          (snd (pollTweets (exampleEnv [examplePost ''1'' 90000, examplePost ''2'' 95000] None True 100000) 2
                  (exampleBot\<lparr>lastProcessedIds := [''1'' \<mapsto> True]\<rparr>, exampleIo))))"
proof -
  let ?b = "exampleBot\<lparr>lastProcessedIds := [''1'' \<mapsto> True]\<rparr>"
  let ?r = "pollTweets (exampleEnv [examplePost ''1'' 90000, examplePost ''2'' 95000] None True 100000) 2
              (?b, exampleIo)"
  have h: "isProcessed (lastProcessedIds ?b) ''1''" by (simp add: isProcessed_def)
  have "\<forall>e \<in> set (added exampleIo (snd ?r)). netPost e \<noteq> Some ''1''"
    using processed_never_republished [OF h, of _ 2 exampleIo "fst ?r" "snd ?r"] by simp
  moreover have "SendEmbed ''2'' \<lparr>em_url = ''https://twitter.com/alice/status/2'', em_type = Tweet,
      em_notes = [], em_image = None, em_reply = False\<rparr> \<in> set (added exampleIo (snd ?r))"
    by (simp add: numeral_2_eq_2 cycle_defs post_defs example_defs)
  ultimately show ?thesis using h by blast
qed

section \<open>Marks and network operations\<close>

text \<open>
  Claim C2, as amended. Within a cycle, every network operation of the processing of a
  post (detail fetch, media download, send) comes after the mark of that post in the
  in-memory set, and before any write of the cycle to the two files: the mark becomes
  durable only by the save at the end of the cycle.
\<close>

theorem mark_precedes_network:
  assumes "processTweets env (b, w) = (b', w')" and "added w w' = pre @ e # post"
    and "netPost e = Some p"
  shows "Mark p \<in> set pre \<and> (\<forall>f. WriteFile f \<notin> set pre)"
proof -
  from processTweets_split [OF assms(1)] obtain xs ys where
    a: "added w w' = xs @ ys" and m: "marksFirst xs"
    and nw: "\<forall>e \<in> set xs. \<forall>f. e \<noteq> WriteFile f" and np: "\<forall>e \<in> set ys. netPost e = None"
    by blast
  from a assms(2) have "xs @ ys = pre @ e # post" by simp
  then have "(\<exists>us. xs = pre @ us \<and> us @ ys = e # post) \<or> (\<exists>us. xs @ us = pre \<and> ys = us @ e # post)"
    by (simp add: append_eq_append_conv2) blast
  moreover have "\<not> (\<exists>us. xs @ us = pre \<and> ys = us @ e # post)"
    using np assms(3) by auto
  ultimately obtain us where us: "xs = pre @ us" "us @ ys = e # post" by blast
  have "us \<noteq> []" using us(2) np assms(3) by (cases us) auto
  then obtain us' where "us = e # us'" using us(2) by (cases us) auto
  with us have x: "xs = pre @ e # us'" by simp
  from m x assms(3) have "Mark p \<in> set pre" unfolding marksFirst_def by blast
  moreover from nw x have "\<forall>f. WriteFile f \<notin> set pre" by auto
  ultimately show ?thesis by simp
qed

theorem mark_precedes_network_witness:
  "added exampleIo (snd (processTweets (exampleEnv [examplePost ''1'' 90000] None True 100000)
      (exampleBot, exampleIo)))
     = [FeedRequest, ChannelFetch, Mark ''1''] @ DetailRequest ''1'' #
       [SendEmbed ''1'' \<lparr>em_url = ''https://twitter.com/alice/status/1'', em_type = Tweet,
          em_notes = [], em_image = None, em_reply = False\<rparr>,
        WriteFile PROCESSED_IDS_FILE, WriteFile STATE_FILE] \<and>
   netPost (DetailRequest ''1'') = Some ''1'' \<and>
   Mark ''1'' \<in> set [FeedRequest, ChannelFetch, Mark ''1''] \<and>
   (\<forall>f. WriteFile f \<notin> set [FeedRequest, ChannelFetch, Mark ''1''])"
proof -
  let ?r = "processTweets (exampleEnv [examplePost ''1'' 90000] None True 100000) (exampleBot, exampleIo)"
  have a: "added exampleIo (snd ?r)
     = [FeedRequest, ChannelFetch, Mark ''1''] @ DetailRequest ''1'' #
       [SendEmbed ''1'' \<lparr>em_url = ''https://twitter.com/alice/status/1'', em_type = Tweet,
          em_notes = [], em_image = None, em_reply = False\<rparr>,
        WriteFile PROCESSED_IDS_FILE, WriteFile STATE_FILE]"
    by (simp add: cycle_defs post_defs example_defs)
  have n: "netPost (DetailRequest ''1'') = Some ''1''" by simp
  have c: "?r = (fst ?r, snd ?r)" by simp
  from mark_precedes_network [OF c a n] a n show ?thesis by blast
qed

text \<open>
  The claim as stated fails. The process of the example has run before and both files
  exist. In its cycle it sends the embed of post 1; up to that point (the first five events
  of the cycle) nothing was written to a file. A process that crashes there and is
  started again reads the files as they were, does not find post 1 among the processed
  identifiers, and, served the same batch ten seconds later, sends the same embed again.
\<close>

theorem crash_resend_counterexample:
  "take 5 (events (snd (processTweets (exampleEnv [examplePost ''1'' 90000] None True 100000)
      (exampleBot, exampleIo))))
     = [FeedRequest, ChannelFetch, Mark ''1'', DetailRequest ''1'',
        SendEmbed ''1'' \<lparr>em_url = ''https://twitter.com/alice/status/1'', em_type = Tweet,
          em_notes = [], em_image = None, em_reply = False\<rparr>] \<and>
   \<not> isProcessed
       (lastProcessedIds (loadState (processed_ids_file exampleBot) (state_file exampleBot))) ''1'' \<and>
   SendEmbed ''1'' \<lparr>em_url = ''https://twitter.com/alice/status/1'', em_type = Tweet,
          em_notes = [], em_image = None, em_reply = False\<rparr>
     \<in> set (events (snd (processTweets (exampleEnv [examplePost ''1'' 90000] None True 110000)
          (loadState (processed_ids_file exampleBot) (state_file exampleBot), exampleIo))))"
  by (simp add: cycle_defs post_defs example_defs loadState_def)

section \<open>Posts older than the freshness window\<close>

lemma set_recentTweets: "set (recentTweets now tweets) = {t \<in> set tweets. isRecent now t}"
  by (auto simp: recentTweets_def sortedTweets_def)

text \<open>Which marks a cycle after the first can contain.\<close>

lemma processTweets_marks:
  assumes "processTweets env (b, w) = (b', w')" and "lastFetchTimestamp b = Some t0"
    and "Mark p \<in> set (added w w')"
  shows "\<exists>tweets w1 w2 t. fetchTweets env w = (Inr (DataArray tweets), w1) \<and>
            channelFetch env w1 = (Inr True, w2) \<and>
            t \<in> set (recentTweets (clockAt env (calls w2)) tweets) \<and> t_id t = p"
  using assms(1)
proof (cases rule: processTweets_cases)
  case (FetchFailed error)
  from fetchTweets_trace [OF FetchFailed(1)] assms(3) show ?thesis
    by (auto dest!: grows_added)
next
  case (NotArray d)
  from fetchTweets_trace [OF NotArray(1)] assms(3) show ?thesis
    by (auto dest!: grows_added)
next
  case (FirstRun tweets w1 ids w2)
  with assms(2) show ?thesis by simp
next
  case (NoChannel tweets w1 r t)
  note g1 = fetchTweets_trace [OF NoChannel(1)]
  note g2 = channelFetch_trace [OF NoChannel(3)]
  have "grows (\<lambda>e. e \<noteq> Mark p) w w1" using g1 by (rule grows_mono) auto
  moreover have "grows (\<lambda>e. e \<noteq> Mark p) w1 w'" using g2 by (rule grows_mono) auto
  ultimately have "grows (\<lambda>e. e \<noteq> Mark p) w w'" by (blast intro: grows_trans)
  with assms(3) show ?thesis by (auto dest!: grows_added)
next
  case (NoRecent tweets w1 t)
  note g1 = fetchTweets_trace [OF NoRecent(1)]
  note g2 = channelFetch_trace [OF NoRecent(3)]
  have "grows (\<lambda>e. e \<noteq> Mark p) w w1" using g1 by (rule grows_mono) auto
  moreover have "grows (\<lambda>e. e \<noteq> Mark p) w1 w'" using g2 by (rule grows_mono) auto
  ultimately have "grows (\<lambda>e. e \<noteq> Mark p) w w'" by (blast intro: grows_trans)
  with assms(3) show ?thesis by (auto dest!: grows_added)
next
  case (Processed tweets w1 w2 ids w3 t1)
  let ?R = "\<lambda>e. e = Mark p \<longrightarrow>
     (\<exists>t \<in> set (recentTweets (clockAt env (calls w2)) tweets). t_id t = p)"
  note g1 = fetchTweets_trace [OF Processed(1)]
  note g2 = channelFetch_trace [OF Processed(3)]
  from tweetLoop_trace [OF Processed(5)]
  have g3: "grows (\<lambda>e. \<exists>t \<in> set (recentTweets (clockAt env (calls w2)) tweets).
              \<not> isProcessed (lastProcessedIds b) (t_id t) \<and> (e = Mark (t_id t) \<or> postEvent (t_id t) e)) w2 w3"
    by auto
  from saveState_result [OF Processed(6)] have g4: "grows (\<lambda>e. \<exists>f. e = WriteFile f) w3 w'" by simp
  have "grows ?R w w1" using g1 by (rule grows_mono) auto
  moreover have "grows ?R w1 w2" using g2 by (rule grows_mono) auto
  moreover have "grows ?R w2 w3" using g3 by (rule grows_mono) auto
  moreover have "grows ?R w3 w'" using g4 by (rule grows_mono) auto
  ultimately have "grows ?R w w'" by (blast intro: grows_trans)
  with assms(3) have "\<exists>t \<in> set (recentTweets (clockAt env (calls w2)) tweets). t_id t = p"
    by (auto dest!: grows_added)
  with Processed(1,3) show ?thesis by blast
qed

text \<open>
  Claim C1, as amended. In a cycle after the first, a fetched post that is older than the
  60-second window on the clock reading of the filter is left out of the cycle: no
  network operation is performed for it, so it is not published, and it is not added to
  the set of processed identifiers: unless a recent post of the same batch carries the
  same identifier, the entry of its identifier after the cycle is what it was before, and
  the cycle does not mark it.
\<close>

theorem old_post_left_out:
  assumes "lastFetchTimestamp b = Some t0"
    and "fetchTweets env w = (Inr (DataArray tweets), w1)"
    and "channelFetch env w1 = (Inr True, w2)"
    and "processTweets env (b, w) = (b', w')"
    and "tweet \<in> set tweets" and "\<not> isRecent (clockAt env (calls w2)) tweet"
    and "\<forall>t \<in> set tweets. isRecent (clockAt env (calls w2)) t \<longrightarrow> t_id t \<noteq> t_id tweet"
  shows "lastProcessedIds b' (t_id tweet) = lastProcessedIds b (t_id tweet) \<and>
         (\<forall>e \<in> set (added w w'). netPost e \<noteq> Some (t_id tweet) \<and> e \<noteq> Mark (t_id tweet))"
proof -
  have notin: "\<forall>t \<in> set (recentTweets (clockAt env (calls w2)) tweets). t_id t \<noteq> t_id tweet"
    using assms(7) by (auto simp: set_recentTweets)
  have ids: "lastProcessedIds b' (t_id tweet) = lastProcessedIds b (t_id tweet)"
    using processTweets_ids [OF assms(4), of "t_id tweet"] assms(1,2,3) notin by auto
  have "netPost e \<noteq> Some (t_id tweet) \<and> e \<noteq> Mark (t_id tweet)" if e: "e \<in> set (added w w')" for e
  proof -
    have "netPost e \<noteq> Some (t_id tweet)"
      using processTweets_posts [OF assms(4) e, of "t_id tweet"] assms(2,3) notin by auto
    moreover have "e \<noteq> Mark (t_id tweet)"
      using processTweets_marks [OF assms(4,1), of "t_id tweet"] e assms(2,3) notin by auto
    ultimately show ?thesis by simp
  qed
  with ids show ?thesis by blast
qed

theorem old_post_left_out_witness:
  "\<not> isRecent 100000 (examplePost ''1'' 0) \<and>
   lastProcessedIds (fst (processTweets
       (exampleEnv [examplePost ''1'' 0, examplePost ''2'' 95000] None True 100000)
       (exampleBot, exampleIo))) ''1'' = lastProcessedIds exampleBot ''1'' \<and>
   \<not> (\<exists>e \<in> set (added exampleIo (snd (processTweets
       (exampleEnv [examplePost ''1'' 0, examplePost ''2'' 95000] None True 100000)
       (exampleBot, exampleIo)))). netPost e = Some ''1'' \<or> e = Mark ''1'')"
proof -
  let ?env = "exampleEnv [examplePost ''1'' 0, examplePost ''2'' 95000] None True 100000"
  let ?r = "processTweets ?env (exampleBot, exampleIo)"
  have h1: "lastFetchTimestamp exampleBot = Some 5" by (simp add: exampleBot_def)
  have h2: "fetchTweets ?env exampleIo
      = (Inr (DataArray [examplePost ''1'' 0, examplePost ''2'' 95000]), \<lparr>calls = 1, events = [FeedRequest]\<rparr>)"
    by (simp add: cycle_defs example_defs)
  have h3: "channelFetch ?env \<lparr>calls = 1, events = [FeedRequest]\<rparr>
      = (Inr True, \<lparr>calls = 2, events = [FeedRequest, ChannelFetch]\<rparr>)"
    by (simp add: cycle_defs example_defs)
  have h4: "?r = (fst ?r, snd ?r)" by simp
  have h5: "examplePost ''1'' 0 \<in> set [examplePost ''1'' 0, examplePost ''2'' 95000]" by simp
  have h6: "\<not> isRecent (clockAt ?env (calls \<lparr>calls = 2, events = [FeedRequest, ChannelFetch]\<rparr>))
      (examplePost ''1'' 0)"
    by (simp add: cycle_defs example_defs)
  have h7: "\<forall>t \<in> set [examplePost ''1'' 0, examplePost ''2'' 95000].
      isRecent (clockAt ?env (calls \<lparr>calls = 2, events = [FeedRequest, ChannelFetch]\<rparr>)) t
        \<longrightarrow> t_id t \<noteq> t_id (examplePost ''1'' 0)"
    by (simp add: cycle_defs example_defs)
  have n: "\<not> isRecent 100000 (examplePost ''1'' 0)" by (simp add: cycle_defs example_defs)
  have t: "t_id (examplePost ''1'' 0) = ''1''" by (simp add: example_defs)
  from old_post_left_out [OF h1 h2 h3 h4 h5 h6 h7] n show ?thesis
    unfolding t by blast
qed

text \<open>
  The claim as stated fails: the process has run before, the batch holds one post created
  100 seconds before the cycle, and after the cycle its identifier is not in the set of
  processed identifiers (and nothing was sent).
\<close>

theorem old_post_not_added_counterexample:
  "lastFetchTimestamp exampleBot = Some 5 \<and>
   \<not> isRecent 100000 (examplePost ''1'' 0) \<and>
   added exampleIo (snd (processTweets (exampleEnv [examplePost ''1'' 0] None True 100000)
       (exampleBot, exampleIo))) = [FeedRequest, ChannelFetch] \<and>
   \<not> isProcessed (lastProcessedIds (fst (processTweets
       (exampleEnv [examplePost ''1'' 0] None True 100000) (exampleBot, exampleIo)))) ''1''"
  by (simp add: cycle_defs example_defs)

section \<open>The first cycle\<close>

lemma markAll_calls: "markAll ts (ids, w) = (ids', w') \<Longrightarrow> calls w' = calls w"
  by (induction ts arbitrary: ids w) (auto simp: emit_def)

text \<open>
  Claim C4. In the first-ever cycle (no previous fetch time) no network operation is
  performed for any post, so nothing is published whatever the batch holds; and when the
  feed delivered a batch, every post of it, recent or not, is marked as processed, the
  fetch time is recorded, and the state is saved: the save is called and, the two writes
  succeeding, both files hold the new state.
\<close>

theorem first_cycle_baseline:
  assumes "lastFetchTimestamp b = None" and "processTweets env (b, w) = (b', w')"
  shows "(\<forall>e \<in> set (added w w'). netPost e = None) \<and>
         (\<forall>tweets w1. fetchTweets env w = (Inr (DataArray tweets), w1) \<longrightarrow>
            (\<forall>t \<in> set tweets. isProcessed (lastProcessedIds b') (t_id t)) \<and>
            lastFetchTimestamp b' = Some (clockAt env (calls w1)) \<and>
            WriteFile PROCESSED_IDS_FILE \<in> set (added w w') \<and>
            (writeAt env (calls w1) PROCESSED_IDS_FILE = None \<and>
             writeAt env (calls w1) STATE_FILE = None \<longrightarrow>
               processed_ids_file b' = Some (lastProcessedIds b') \<and>
               state_file b' = Some (lastFetchTimestamp b')))"
proof (intro conjI allI impI)
  show "\<forall>e \<in> set (added w w'). netPost e = None"
  proof
    fix e assume e: "e \<in> set (added w w')"
    show "netPost e = None"
    proof (cases "netPost e")
      case (Some p)
      from processTweets_posts [OF assms(2) e Some] assms(1) show ?thesis by auto
    qed simp
  qed
next
  fix tweets w1
  assume f: "fetchTweets env w = (Inr (DataArray tweets), w1)"
  from assms(2) f assms(1) obtain ids w2 where
    m: "markAll tweets (lastProcessedIds b, w1) = (ids, w2)"
    and s: "saveState env (b\<lparr>lastProcessedIds := ids,
              lastFetchTimestamp := Some (clockAt env (calls w1))\<rparr>, w2) = (b', w')"
    by (cases rule: processTweets_cases) auto
  note sr = saveState_result [OF s]
  note c = markAll_calls [OF m]
  from sr have ids: "lastProcessedIds b' = ids"
    and ts: "lastFetchTimestamp b' = Some (clockAt env (calls w1))" by simp_all
  show "\<forall>t \<in> set tweets. isProcessed (lastProcessedIds b') (t_id t)"
    using markAll_ids [OF m] ids by (auto simp: isProcessed_def)
  show "lastFetchTimestamp b' = Some (clockAt env (calls w1))" by (rule ts)
  have g1: "grows (\<lambda>e. True) w w1" using fetchTweets_trace [OF f] by (rule grows_mono) simp
  have g2: "grows (\<lambda>e. True) w1 w2" using markAll_trace [OF m] by (rule grows_mono) simp
  have g3: "grows (\<lambda>e. True) w2 w'" using sr by (auto intro: grows_mono)
  have "added w w' = added w w1 @ added w1 w2 @ added w2 w'"
    using added_trans [OF grows_trans [OF g1 g2] g3] added_trans [OF g1 g2] by simp
  with sr show "WriteFile PROCESSED_IDS_FILE \<in> set (added w w')" by simp
  assume "writeAt env (calls w1) PROCESSED_IDS_FILE = None \<and> writeAt env (calls w1) STATE_FILE = None"
  with sr c ids ts show "processed_ids_file b' = Some (lastProcessedIds b')"
    and "state_file b' = Some (lastFetchTimestamp b')" by simp_all
qed

theorem first_cycle_baseline_witness:
  "lastFetchTimestamp (exampleBot\<lparr>lastFetchTimestamp := None\<rparr>) = None \<and>
   \<not> (\<exists>e \<in> set (added exampleIo (snd (processTweets
          (exampleEnv [examplePost ''1'' 0, examplePost ''2'' 95000] None True 100000)
          (exampleBot\<lparr>lastFetchTimestamp := None\<rparr>, exampleIo)))). netPost e \<noteq> None) \<and>
   isProcessed (lastProcessedIds (fst (processTweets
          (exampleEnv [examplePost ''1'' 0, examplePost ''2'' 95000] None True 100000)
          (exampleBot\<lparr>lastFetchTimestamp := None\<rparr>, exampleIo)))) ''1'' \<and>
   isProcessed (lastProcessedIds (fst (processTweets
          (exampleEnv [examplePost ''1'' 0, examplePost ''2'' 95000] None True 100000)
          (exampleBot\<lparr>lastFetchTimestamp := None\<rparr>, exampleIo)))) ''2'' \<and>
   state_file (fst (processTweets
          (exampleEnv [examplePost ''1'' 0, examplePost ''2'' 95000] None True 100000)
          (exampleBot\<lparr>lastFetchTimestamp := None\<rparr>, exampleIo))) = Some (Some 100000)"
proof -
  let ?env = "exampleEnv [examplePost ''1'' 0, examplePost ''2'' 95000] None True 100000"
  let ?b = "exampleBot\<lparr>lastFetchTimestamp := None\<rparr>"
  let ?r = "processTweets ?env (?b, exampleIo)"
  have h1: "lastFetchTimestamp ?b = None" by simp
  have h2: "?r = (fst ?r, snd ?r)" by simp
  have f: "fetchTweets ?env exampleIo
      = (Inr (DataArray [examplePost ''1'' 0, examplePost ''2'' 95000]), \<lparr>calls = 1, events = [FeedRequest]\<rparr>)"
    by (simp add: cycle_defs example_defs)
  have wr: "writeAt ?env (calls \<lparr>calls = 1, events = [FeedRequest]\<rparr>) PROCESSED_IDS_FILE = None \<and>
            writeAt ?env (calls \<lparr>calls = 1, events = [FeedRequest]\<rparr>) STATE_FILE = None"
    by (simp add: example_defs)
  have cl: "clockAt ?env (calls \<lparr>calls = 1, events = [FeedRequest]\<rparr>) = 100000"
    by (simp add: example_defs)
  have ids: "t_id (examplePost ''1'' 0) = ''1''" "t_id (examplePost ''2'' 95000) = ''2''"
    by (simp_all add: example_defs)
  from first_cycle_baseline [OF h1 h2] f wr cl ids h1 show ?thesis
    by auto
qed

section \<open>When the state is saved\<close>

text \<open>
  Claim C9. In a cycle after the first, the save is called exactly when the cycle got as
  far as the filter (the feed delivered a batch and the channel was found) and the filter
  kept at least one recent post. When the filter keeps none, the cycle changes nothing
  but the in-memory fetch time: the processed identifiers and both files stay as they
  are, and no file is written.
\<close>

theorem save_iff_recent:
  assumes "lastFetchTimestamp b = Some t0" and "processTweets env (b, w) = (b', w')"
  shows "(WriteFile PROCESSED_IDS_FILE \<in> set (added w w') \<longleftrightarrow>
            (\<exists>tweets w1 w2. fetchTweets env w = (Inr (DataArray tweets), w1) \<and>
               channelFetch env w1 = (Inr True, w2) \<and>
               recentTweets (clockAt env (calls w2)) tweets \<noteq> [])) \<and>
         (\<forall>tweets w1 w2. fetchTweets env w = (Inr (DataArray tweets), w1) \<and>
               channelFetch env w1 = (Inr True, w2) \<and>
               recentTweets (clockAt env (calls w2)) tweets = [] \<longrightarrow>
            b' = b\<lparr>lastFetchTimestamp := Some (clockAt env (calls w1))\<rparr> \<and>
            (\<forall>f. WriteFile f \<notin> set (added w w')))"
  using assms(2)
proof (cases rule: processTweets_cases)
  case (FetchFailed error)
  from fetchTweets_trace [OF FetchFailed(1)] have "\<forall>f. WriteFile f \<notin> set (added w w')"
    by (auto dest!: grows_added)
  with FetchFailed show ?thesis by auto
next
  case (NotArray d)
  from fetchTweets_trace [OF NotArray(1)] have "\<forall>f. WriteFile f \<notin> set (added w w')"
    by (auto dest!: grows_added)
  with NotArray show ?thesis by auto
next
  case (FirstRun tweets w1 ids w2)
  with assms(1) show ?thesis by simp
next
  case (NoChannel tweets w1 r t)
  have "grows (\<lambda>e. \<forall>f. e \<noteq> WriteFile f) w w1"
    using fetchTweets_trace [OF NoChannel(1)] by (rule grows_mono) auto
  moreover have "grows (\<lambda>e. \<forall>f. e \<noteq> WriteFile f) w1 w'"
    using channelFetch_trace [OF NoChannel(3)] by (rule grows_mono) auto
  ultimately have "grows (\<lambda>e. \<forall>f. e \<noteq> WriteFile f) w w'" by (rule grows_trans)
  then have "\<forall>f. WriteFile f \<notin> set (added w w')" by (auto dest!: grows_added)
  with NoChannel show ?thesis by auto
next
  case (NoRecent tweets w1 t)
  have "grows (\<lambda>e. \<forall>f. e \<noteq> WriteFile f) w w1"
    using fetchTweets_trace [OF NoRecent(1)] by (rule grows_mono) auto
  moreover have "grows (\<lambda>e. \<forall>f. e \<noteq> WriteFile f) w1 w'"
    using channelFetch_trace [OF NoRecent(3)] by (rule grows_mono) auto
  ultimately have "grows (\<lambda>e. \<forall>f. e \<noteq> WriteFile f) w w'" by (rule grows_trans)
  then have "\<forall>f. WriteFile f \<notin> set (added w w')" by (auto dest!: grows_added)
  with NoRecent show ?thesis by auto
next
  case (Processed tweets w1 w2 ids w3 t)
  note sr = saveState_result [OF Processed(6)]
  have g1: "grows (\<lambda>e. True) w w1" using fetchTweets_trace [OF Processed(1)] by (rule grows_mono) simp
  have g2: "grows (\<lambda>e. True) w1 w2" using channelFetch_trace [OF Processed(3)] by (rule grows_mono) simp
  have g3: "grows (\<lambda>e. True) w2 w3" using tweetLoop_trace [OF Processed(5)] by (auto intro: grows_mono)
  have g4: "grows (\<lambda>e. True) w3 w'" using sr by (auto intro: grows_mono)
  have "added w w' = added w w3 @ added w3 w'"
    using added_trans [OF grows_trans [OF grows_trans [OF g1 g2] g3] g4] by simp
  with sr have "WriteFile PROCESSED_IDS_FILE \<in> set (added w w')" by simp
  with Processed(1,3,4) show ?thesis by auto
qed

theorem save_iff_recent_witness:
  "lastFetchTimestamp exampleBot = Some 5 \<and>
   recentTweets 100000 [examplePost ''1'' 0] = [] \<and>
   WriteFile PROCESSED_IDS_FILE \<notin> set (added exampleIo (snd (processTweets
       (exampleEnv [examplePost ''1'' 0] None True 100000) (exampleBot, exampleIo)))) \<and>
   fst (processTweets (exampleEnv [examplePost ''1'' 0] None True 100000) (exampleBot, exampleIo))
     = exampleBot\<lparr>lastFetchTimestamp := Some 100000\<rparr> \<and>
   recentTweets 100000 [examplePost ''2'' 95000] \<noteq> [] \<and>
   WriteFile PROCESSED_IDS_FILE \<in> set (added exampleIo (snd (processTweets
       (exampleEnv [examplePost ''2'' 95000] None True 100000) (exampleBot, exampleIo))))"
proof -
  let ?old = "exampleEnv [examplePost ''1'' 0] None True 100000"
  let ?new = "exampleEnv [examplePost ''2'' 95000] None True 100000"
  let ?w1 = "\<lparr>calls = 1, events = [FeedRequest]\<rparr>"
  let ?w2 = "\<lparr>calls = 2, events = [FeedRequest, ChannelFetch]\<rparr>"
  let ?ro = "processTweets ?old (exampleBot, exampleIo)"
  let ?rn = "processTweets ?new (exampleBot, exampleIo)"
  have h: "lastFetchTimestamp exampleBot = Some 5" by (simp add: exampleBot_def)
  have fo: "fetchTweets ?old exampleIo = (Inr (DataArray [examplePost ''1'' 0]), ?w1)"
    by (simp add: cycle_defs example_defs)
  have co: "channelFetch ?old ?w1 = (Inr True, ?w2)" by (simp add: cycle_defs example_defs)
  have ro: "recentTweets (clockAt ?old (calls ?w2)) [examplePost ''1'' 0] = []"
    by (simp add: cycle_defs example_defs)
  have ko: "clockAt ?old (calls ?w1) = 100000" "clockAt ?old (calls ?w2) = 100000"
    by (simp_all add: example_defs)
  have fn: "fetchTweets ?new exampleIo = (Inr (DataArray [examplePost ''2'' 95000]), ?w1)"
    by (simp add: cycle_defs example_defs)
  have cn: "channelFetch ?new ?w1 = (Inr True, ?w2)" by (simp add: cycle_defs example_defs)
  have rn: "recentTweets (clockAt ?new (calls ?w2)) [examplePost ''2'' 95000] \<noteq> []"
    by (simp add: cycle_defs example_defs)
  have kn: "clockAt ?new (calls ?w2) = 100000" by (simp add: example_defs)
  have po: "?ro = (fst ?ro, snd ?ro)" and pn: "?rn = (fst ?rn, snd ?rn)" by simp_all
  from save_iff_recent [OF h po] fo co ro
  have "WriteFile PROCESSED_IDS_FILE \<notin> set (added exampleIo (snd ?ro))"
    and "fst ?ro = exampleBot\<lparr>lastFetchTimestamp := Some (clockAt ?old (calls ?w1))\<rparr>"
    by blast+
  moreover from save_iff_recent [OF h pn] fn cn rn
  have "WriteFile PROCESSED_IDS_FILE \<in> set (added exampleIo (snd ?rn))" by blast
  ultimately show ?thesis using h ro rn unfolding ko kn by blast
qed

section \<open>Posts without user\<close>

lemma tweetLoop_userless:
  "\<forall>t \<in> set ts. t_id t = p \<longrightarrow> user t = None \<Longrightarrow> tweetLoop env ts (ids, w) = (ids', w') \<Longrightarrow>
   grows (\<lambda>e. netPost e \<noteq> Some p) w w'"
proof (induction ts arbitrary: ids w)
  case Nil
  then show ?case by (simp add: grows_refl)
next
  case (Cons t rest)
  from Cons.prems(1) have rest: "\<forall>t \<in> set rest. t_id t = p \<longrightarrow> user t = None" by simp
  show ?case
  proof (cases "isProcessed ids (t_id t)")
    case True
    with Cons.prems(2) have "tweetLoop env rest (ids, w) = (ids', w')" by simp
    from Cons.IH [OF rest this] show ?thesis .
  next
    case False
    let ?w1 = "emit (Mark (t_id t)) w"
    let ?w2 = "processTweet env t ?w1"
    from False Cons.prems(2)
    have "tweetLoop env rest (ids(t_id t \<mapsto> True), ?w2) = (ids', w')" by simp
    from Cons.IH [OF rest this] have g3: "grows (\<lambda>e. netPost e \<noteq> Some p) ?w2 w'" .
    have g1: "grows (\<lambda>e. netPost e \<noteq> Some p) w ?w1" by (rule grows_emit) simp
    have g2: "grows (\<lambda>e. netPost e \<noteq> Some p) ?w1 ?w2"
    proof (cases "t_id t = p")
      case True
      with Cons.prems(1) have "user t = None" by simp
      then show ?thesis by (simp add: processTweet_def grows_refl)
    next
      case False
      have "postEvent (t_id t) e \<Longrightarrow> netPost e \<noteq> Some p" for e
        using False by (cases e) auto
      with grows_processTweet [of t ?w1 env] show ?thesis by (rule grows_mono)
    qed
    from g1 g2 g3 show ?thesis by (blast intro: grows_trans)
  qed
qed

text \<open>
  Claim C10. A recent post that was not processed before and has no user is marked and
  nothing else is done for it: the loop goes on with the identifier marked and only the
  mark added to the trace. In the cycle that examines it, where every recent post with
  that identifier lacks the user, and in every later cycle, no detail fetch, no download
  and no send is performed for the identifier.
\<close>

theorem userless_post_dropped:
  assumes "user tweet = None" and "\<not> isProcessed (lastProcessedIds b) (t_id tweet)"
    and "lastFetchTimestamp b = Some t0"
    and "fetchTweets env w = (Inr (DataArray tweets), w1)"
    and "channelFetch env w1 = (Inr True, w2)"
    and "tweet \<in> set (recentTweets (clockAt env (calls w2)) tweets)"
    and "\<forall>t \<in> set (recentTweets (clockAt env (calls w2)) tweets). t_id t = t_id tweet \<longrightarrow> user t = None"
    and "processTweets env (b, w) = (b1, v1)" and "pollTweets env n (b1, v1) = (b', w')"
  shows "isProcessed (lastProcessedIds b1) (t_id tweet) \<and>
         (\<forall>e \<in> set (added w w'). netPost e \<noteq> Some (t_id tweet)) \<and>
         (\<forall>ids v rest. \<not> isProcessed ids (t_id tweet) \<longrightarrow>
            tweetLoop env (tweet # rest) (ids, v)
              = tweetLoop env rest (ids(t_id tweet \<mapsto> True), emit (Mark (t_id tweet)) v))"
proof -
  let ?p = "t_id tweet"
  let ?Q = "\<lambda>e. netPost e \<noteq> Some ?p"
  from assms(6) have ne: "recentTweets (clockAt env (calls w2)) tweets \<noteq> []" by auto
  from assms(8) assms(3,4,5) ne obtain ids w3 where
    l: "tweetLoop env (recentTweets (clockAt env (calls w2)) tweets) (lastProcessedIds b, w2) = (ids, w3)"
    and s: "saveState env (b\<lparr>lastProcessedIds := ids,
              lastFetchTimestamp := Some (clockAt env (calls w1))\<rparr>, w3) = (b1, v1)"
    by (cases rule: processTweets_cases) auto
  note sr = saveState_result [OF s]
  have marked: "isProcessed (lastProcessedIds b1) ?p"
    using tweetLoop_ids [OF l, of ?p] sr assms(2,6) by (auto simp: isProcessed_def)
  have g1: "grows ?Q w w1" using fetchTweets_trace [OF assms(4)] by (rule grows_mono) auto
  have g2: "grows ?Q w1 w2" using channelFetch_trace [OF assms(5)] by (rule grows_mono) auto
  have g3: "grows ?Q w2 w3" using assms(7) l by (rule tweetLoop_userless)
  have g4: "grows ?Q w3 v1" using sr by (auto intro: grows_mono)
  have g5: "grows ?Q v1 w'" using pollTweets_quiet [OF assms(9) marked] by simp
  have "grows ?Q w w'" using g1 g2 g3 g4 g5 by (blast intro: grows_trans)
  then have quiet: "\<forall>e \<in> set (added w w'). netPost e \<noteq> Some ?p" by (auto dest!: grows_added)
  have step: "tweetLoop env (tweet # rest) (ids, v)
      = tweetLoop env rest (ids(?p \<mapsto> True), emit (Mark ?p) v)"
    if "\<not> isProcessed ids ?p" for ids v rest
    using that assms(1) by (simp add: processTweet_def)
  from marked quiet step show ?thesis by blast
qed


theorem userless_post_dropped_witness:
  "user ((examplePost ''3'' 95000)\<lparr>user := None\<rparr>) = None \<and>
   \<not> isProcessed (lastProcessedIds exampleBot) ''3'' \<and>
   isProcessed (lastProcessedIds (fst (processTweets
       (exampleEnv [(examplePost ''3'' 95000)\<lparr>user := None\<rparr>, examplePost ''2'' 96000] None True 100000)
       (exampleBot, exampleIo)))) ''3'' \<and>
   \<not> (\<exists>e \<in> set (added exampleIo (snd (pollTweets
       (exampleEnv [(examplePost ''3'' 95000)\<lparr>user := None\<rparr>, examplePost ''2'' 96000] None True 100000) 2
       (processTweets
          (exampleEnv [(examplePost ''3'' 95000)\<lparr>user := None\<rparr>, examplePost ''2'' 96000] None True 100000)
          (exampleBot, exampleIo))))). netPost e = Some ''3'')"
proof -
  let ?t = "(examplePost ''3'' 95000)\<lparr>user := None\<rparr>"
  let ?env = "exampleEnv [?t, examplePost ''2'' 96000] None True 100000"
  let ?w1 = "\<lparr>calls = 1, events = [FeedRequest]\<rparr>"
  let ?w2 = "\<lparr>calls = 2, events = [FeedRequest, ChannelFetch]\<rparr>"
  let ?c = "processTweets ?env (exampleBot, exampleIo)"
  let ?r = "pollTweets ?env 2 (fst ?c, snd ?c)"
  have h1: "user ?t = None" by simp
  have id: "t_id ?t = ''3''" by (simp add: example_defs)
  have h2: "\<not> isProcessed (lastProcessedIds exampleBot) (t_id ?t)"
    by (simp add: isProcessed_def example_defs)
  have h3: "lastFetchTimestamp exampleBot = Some 5" by (simp add: exampleBot_def)
  have h4: "fetchTweets ?env exampleIo = (Inr (DataArray [?t, examplePost ''2'' 96000]), ?w1)"
    by (simp add: cycle_defs example_defs)
  have h5: "channelFetch ?env ?w1 = (Inr True, ?w2)" by (simp add: cycle_defs example_defs)
  have rc: "recentTweets (clockAt ?env (calls ?w2)) [?t, examplePost ''2'' 96000]
      = [examplePost ''2'' 96000, ?t]"
    by (simp add: cycle_defs example_defs)
  have h6: "?t \<in> set (recentTweets (clockAt ?env (calls ?w2)) [?t, examplePost ''2'' 96000])"
    unfolding rc by simp
  have h7: "\<forall>t \<in> set (recentTweets (clockAt ?env (calls ?w2)) [?t, examplePost ''2'' 96000]).
      t_id t = t_id ?t \<longrightarrow> user t = None"
    unfolding rc by (simp add: example_defs)
  have h8: "?c = (fst ?c, snd ?c)" by simp
  have h9: "?r = (fst ?r, snd ?r)" by simp
  from userless_post_dropped [OF h1 h2 h3 h4 h5 h6 h7 h8 h9] h1 h2 show ?thesis
    unfolding id by auto
qed

section \<open>Video before image\<close>

lemma consistent_videoDownloaded:
  "consistent ms \<Longrightarrow> \<not> hasFoundImage ms \<Longrightarrow> \<not> hasFoundVideo ms \<Longrightarrow>
   consistent (videoDownloaded n p (ms\<lparr>videoFilename := f\<rparr>)) \<and>
   \<not> hasFoundImage (videoDownloaded n p (ms\<lparr>videoFilename := f\<rparr>)) \<and>
   (hasFoundVideo (videoDownloaded n p (ms\<lparr>videoFilename := f\<rparr>)) \<longleftrightarrow> p \<noteq> [])"
  by (simp add: consistent_def videoDownloaded_def addNote_def truthy_def Let_def)

lemma consistent_filename:
  "consistent (ms\<lparr>videoFilename := f\<rparr>) = consistent ms"
  by (simp add: consistent_def)

lemma consistent_directVideo:
  assumes "consistent ms" and "\<not> hasFoundImage ms" and "\<not> hasFoundVideo ms"
    and "directVideo env tweet filename n vs ms w = (c, ms', w')"
  shows "consistent ms' \<and> \<not> hasFoundImage ms'"
proof (cases "vs \<noteq> [] \<and> find isMp4Variant vs \<noteq> None")
  case False
  then have "directVideo env tweet filename n vs ms w = (Normal, ms, w)"
    by (cases "find isMp4Variant vs") (auto simp: directVideo_def)
  with assms show ?thesis by simp
next
  case True
  then obtain v where v: "find isMp4Variant vs = Some v" by auto
  obtain r w1 where dl: "downloadMedia env (t_id tweet) (orElse (v_src v) (v_url v)) filename w = (r, w1)"
    by (cases "downloadMedia env (t_id tweet) (orElse (v_src v) (v_url v)) filename w") auto
  show ?thesis
  proof (cases r)
    case (Inl error)
    with assms True v dl have "ms' = ms\<lparr>videoFilename := Some filename\<rparr>"
      by (simp add: directVideo_def Let_def)
    with assms show ?thesis by (simp add: consistent_filename)
  next
    case (Inr p)
    with assms True v dl have "ms' = videoDownloaded n p (ms\<lparr>videoFilename := Some filename\<rparr>)"
      by (simp add: directVideo_def Let_def)
    with consistent_videoDownloaded [OF assms(1,2,3)] show ?thesis by simp
  qed
qed

lemma consistent_videoCase1:
  "consistent ms \<Longrightarrow> \<not> hasFoundImage ms \<Longrightarrow> videoCase1 env tweet d ms w = (c, ms', w') \<Longrightarrow>
   consistent ms' \<and> \<not> hasFoundImage ms'"
  by (auto simp: videoCase1_def split: if_splits option.splits dest: consistent_directVideo)

lemma consistent_videoCase2:
  "consistent ms \<Longrightarrow> \<not> hasFoundImage ms \<Longrightarrow> videoCase2 env tweet d ms w = (c, ms', w') \<Longrightarrow>
   consistent ms' \<and> \<not> hasFoundImage ms'"
  by (auto simp: videoCase2_def split: if_splits option.splits dest: consistent_directVideo)

lemma consistent_mediaDetailsVideo:
  "consistent ms \<Longrightarrow> \<not> hasFoundImage ms \<Longrightarrow> \<not> hasFoundVideo ms \<Longrightarrow>
   mediaDetailsVideo env tweet ms_list ms w = (c, ms', w') \<Longrightarrow>
   consistent ms' \<and> \<not> hasFoundImage ms'"
proof (induction ms_list arbitrary: ms w)
  case Nil
  then show ?case by simp
next
  case (Cons m rest)
  note vd = consistent_videoDownloaded [OF Cons.prems(1,2,3), of VideoWillFollow _
      "Some (''video_'' @ t_id tweet @ ''.mp4'')"]
  show ?case
  proof (cases "(m_type m = ''video'' \<or> m_type m = ''animated_gif'') \<and> mp4Variants (m_variants m) \<noteq> []")
    case False
    with Cons.prems(4) have "mediaDetailsVideo env tweet rest ms w = (c, ms', w')"
      by (auto split: if_splits list.splits)
    from Cons.IH [OF Cons.prems(1,2,3) this] show ?thesis .
  next
    case True
    then obtain best others where bo: "mp4Variants (m_variants m) = best # others"
      by (cases "mp4Variants (m_variants m)") auto
    obtain r w1 where dl: "downloadMedia env (t_id tweet) (v_url best)
        (''video_'' @ t_id tweet @ ''.mp4'') w = (r, w1)"
      by (cases "downloadMedia env (t_id tweet) (v_url best) (''video_'' @ t_id tweet @ ''.mp4'') w") auto
    show ?thesis
    proof (cases r)
      case (Inl error)
      with Cons.prems True bo dl show ?thesis by (auto simp: consistent_filename)
    next
      case (Inr p)
      show ?thesis
      proof (cases "p = []")
        case False
        with Inr Cons.prems(4) True bo dl vd [of p] show ?thesis by auto
      next
        case empty: True
        let ?ms1 = "videoDownloaded VideoWillFollow p
                      (ms\<lparr>videoFilename := Some (''video_'' @ t_id tweet @ ''.mp4'')\<rparr>)"
        from empty Inr Cons.prems(4) True bo dl
        have "mediaDetailsVideo env tweet rest ?ms1 w1 = (c, ms', w')" by auto
        moreover from vd [of p] empty have "consistent ?ms1" "\<not> hasFoundImage ?ms1" "\<not> hasFoundVideo ?ms1"
          by auto
        ultimately show ?thesis using Cons.IH by blast
      qed
    qed
  qed
qed

lemma consistent_videoCase3:
  "consistent ms \<Longrightarrow> \<not> hasFoundImage ms \<Longrightarrow> videoCase3 env tweet d ms w = (c, ms', w') \<Longrightarrow>
   consistent ms' \<and> \<not> hasFoundImage ms'"
  by (auto simp: videoCase3_def split: if_splits dest: consistent_mediaDetailsVideo)

lemma consistent_imageFound:
  "consistent ms \<Longrightarrow> \<not> hasFoundVideo ms \<Longrightarrow>
   consistent (imageFound url n ms) \<and> \<not> hasFoundVideo (imageFound url n ms)"
  by (simp add: consistent_def imageFound_def setImage_def addNote_def Let_def)

lemma consistent_photosLoop:
  "consistent ms \<Longrightarrow> \<not> hasFoundVideo ms \<Longrightarrow>
   consistent (photosLoop ps n ms) \<and> \<not> hasFoundVideo (photosLoop ps n ms)"
  by (induction ps) (auto simp: consistent_imageFound)

lemma consistent_mediaPhotosLoop:
  "consistent ms \<Longrightarrow> \<not> hasFoundVideo ms \<Longrightarrow>
   consistent (mediaPhotosLoop ps n ms) \<and> \<not> hasFoundVideo (mediaPhotosLoop ps n ms)"
  by (induction ps) (auto simp: consistent_imageFound)

lemma consistent_detailImages: "consistent ms \<Longrightarrow> consistent (detailImages d ms)"
  by (simp add: detailImages_def consistent_photosLoop consistent_mediaPhotosLoop)

lemma consistent_detailMedia:
  assumes "consistent ms" and "\<not> hasFoundImage ms" and "detailMedia env tweet d ms w = (c, ms', w')"
  shows "consistent ms'"
proof -
  obtain c1 ms1 w1 where v1: "videoCase1 env tweet d ms w = (c1, ms1, w1)"
    by (cases "videoCase1 env tweet d ms w") auto
  note i1 = consistent_videoCase1 [OF assms(1,2) v1]
  show ?thesis
  proof (cases c1)
    case (Thrown e)
    with v1 assms(3) i1 show ?thesis by (simp add: detailMedia_def)
  next
    case Normal
    obtain c2 ms2 w2 where v2: "videoCase2 env tweet d ms1 w1 = (c2, ms2, w2)"
      by (cases "videoCase2 env tweet d ms1 w1") auto
    from i1 have i2: "consistent ms2 \<and> \<not> hasFoundImage ms2"
      using consistent_videoCase2 [OF _ _ v2] by simp
    show ?thesis
    proof (cases c2)
      case (Thrown e)
      with v1 v2 Normal assms(3) i2 show ?thesis by (simp add: detailMedia_def)
    next
      case n2: Normal
      obtain c3 ms3 w3 where v3: "videoCase3 env tweet d ms2 w2 = (c3, ms3, w3)"
        by (cases "videoCase3 env tweet d ms2 w2") auto
      from i2 have i3: "consistent ms3 \<and> \<not> hasFoundImage ms3"
        using consistent_videoCase3 [OF _ _ v3] by simp
      show ?thesis
        using v1 v2 v3 Normal n2 assms(3) i3
        by (cases c3) (auto simp: detailMedia_def consistent_detailImages)
    qed
  qed
qed

lemma consistent_detailTier:
  "consistent ms \<Longrightarrow> \<not> hasFoundImage ms \<Longrightarrow> detailTier env tweet ms w = (ms', w') \<Longrightarrow> consistent ms'"
  by (auto simp: detailTier_def split: prod.splits sum.splits option.splits
        dest: consistent_detailMedia)

lemma consistent_extendedVideo:
  assumes "consistent ms" and "\<not> hasFoundImage ms" and "\<not> hasFoundVideo ms"
    and "extendedVideo env tweet ms w = (ms', w')"
  shows "consistent ms' \<and> \<not> hasFoundImage ms'"
proof (cases "find (\<lambda>m. m_type m = ''video'' \<or> m_type m = ''animated_gif'') (extended_entities_media tweet)")
  case None
  with assms show ?thesis by (simp add: extendedVideo_def)
next
  case (Some videoMedia)
  show ?thesis
  proof (cases "mp4Variants (m_variants videoMedia)")
    case Nil
    with Some assms show ?thesis by (simp add: extendedVideo_def)
  next
    case (Cons best others)
    obtain r w1 where dl: "downloadMedia env (t_id tweet) (v_url best)
        (''video_'' @ t_id tweet @ ''.mp4'') w = (r, w1)"
      by (cases "downloadMedia env (t_id tweet) (v_url best) (''video_'' @ t_id tweet @ ''.mp4'') w") auto
    show ?thesis
    proof (cases r)
      case (Inl error)
      with assms Some Cons dl have "ms' = ms\<lparr>videoFilename := Some (''video_'' @ t_id tweet @ ''.mp4'')\<rparr>"
        by (simp add: extendedVideo_def)
      with assms show ?thesis by (simp add: consistent_filename)
    next
      case (Inr p)
      with assms Some Cons dl have "ms' = videoDownloaded VideoWillFollow p
          (ms\<lparr>videoFilename := Some (''video_'' @ t_id tweet @ ''.mp4'')\<rparr>)"
        by (simp add: extendedVideo_def)
      with consistent_videoDownloaded [OF assms(1,2,3)] show ?thesis by simp
    qed
  qed
qed

lemma consistent_extendedImage: "consistent ms \<Longrightarrow> consistent (extendedImage tweet ms)"
  by (auto simp: extendedImage_def Let_def consistent_imageFound split: list.splits)

lemma consistent_entitiesMedia:
  "consistent ms \<Longrightarrow> \<not> hasFoundVideo ms \<Longrightarrow>
   consistent (entitiesMedia tweet ms) \<and> \<not> hasFoundVideo (entitiesMedia tweet ms)"
  by (auto simp: entitiesMedia_def Let_def consistent_imageFound split: list.splits)

lemma consistent_entitiesUrls:
  assumes "consistent ms" and "\<not> hasFoundVideo ms"
  shows "consistent (entitiesUrls tweet ms)"
proof -
  define ws where "ws = filter (\<lambda>url. u_images url \<noteq> []) (entities_urls tweet)"
  define ms1 where "ms1 = (case ws of [] \<Rightarrow> ms
     | u0 # others \<Rightarrow> (case u_images u0 of [] \<Rightarrow> ms
         | imageUrl # rest \<Rightarrow> imageFound imageUrl (length ws) ms))"
  define mediaUrls where "mediaUrls = map u_expanded_url
     (filter (\<lambda>url. includesOpt (u_display_url url) ''pic.twitter.com'' \<or>
                    includesOpt (u_display_url url) ''pic.x.com'' \<or>
                    includesOpt (u_expanded_url url) ''/photo/'') (entities_urls tweet))"
  have eq: "entitiesUrls tweet ms =
     (if \<not> hasFoundImage ms \<and> entities_urls tweet \<noteq> [] then
        (if \<not> hasFoundImage ms1
         then (case mediaUrls of [] \<Rightarrow> ms1 | url0 # others \<Rightarrow> imageFound url0 (length mediaUrls) ms1)
         else ms1)
      else ms)"
    unfolding entitiesUrls_def ws_def ms1_def mediaUrls_def Let_def by (rule refl)
  have 1: "consistent ms1 \<and> \<not> hasFoundVideo ms1"
  proof (cases ws)
    case Nil
    with assms show ?thesis by (simp add: ms1_def)
  next
    case (Cons u0 others)
    with assms show ?thesis
      by (cases "u_images u0") (simp_all add: ms1_def consistent_imageFound)
  qed
  have 2: "consistent (case mediaUrls of [] \<Rightarrow> ms1
      | url0 # others \<Rightarrow> imageFound url0 (length mediaUrls) ms1)"
    using 1 by (cases mediaUrls) (simp_all add: consistent_imageFound)
  from assms 1 2 show ?thesis unfolding eq by simp
qed

lemma consistent_extendedEntities:
  assumes "consistent ms" and "\<not> hasFoundImage ms" and "\<not> hasFoundVideo ms"
    and "extendedEntities env tweet ms w = (ms', w')"
  shows "consistent ms'"
proof (cases "extended_entities_media tweet \<noteq> []")
  case False
  with assms show ?thesis by (simp add: extendedEntities_def)
next
  case True
  obtain ms1 w1 where v: "extendedVideo env tweet ms w = (ms1, w1)"
    by (cases "extendedVideo env tweet ms w") auto
  with True assms(4) have "ms' = extendedImage tweet ms1" by (simp add: extendedEntities_def)
  with consistent_extendedVideo [OF assms(1,2,3) v] show ?thesis
    by (simp add: consistent_extendedImage)
qed

lemma consistent_fallbackMedia:
  assumes "consistent ms" and "fallbackMedia env tweet ms w = (ms', w')"
  shows "consistent ms'"
proof (cases "\<not> hasFoundImage ms \<and> \<not> hasFoundVideo ms")
  case False
  with assms show ?thesis by (auto simp: fallbackMedia_def)
next
  case True
  obtain ms1 w1 where e: "extendedEntities env tweet ms w = (ms1, w1)"
    by (cases "extendedEntities env tweet ms w") auto
  have c1: "consistent ms1"
    using assms(1) True e by (blast intro: consistent_extendedEntities)
  show ?thesis
  proof (cases "\<not> hasFoundImage ms1 \<and> \<not> hasFoundVideo ms1")
    case False
    with assms(2) True e have "ms' = ms1" by (simp add: fallbackMedia_def)
    with c1 show ?thesis by simp
  next
    case t2: True
    with assms(2) True e have "ms' = entitiesUrls tweet (entitiesMedia tweet ms1)"
      by (simp add: fallbackMedia_def)
    with c1 t2 consistent_entitiesMedia [of ms1 tweet] show ?thesis
      by (simp add: consistent_entitiesUrls)
  qed
qed

lemma consistent_attachmentsNote: "consistent ms \<Longrightarrow> consistent (attachmentsNote tweet ms)"
  by (auto simp: attachmentsNote_def consistent_def addNote_def)

lemma consistent_resolveMedia:
  assumes "consistent ms" and "\<not> hasFoundImage ms" and "resolveMedia env tweet ms w = (ms', w')"
  shows "consistent ms'"
proof -
  obtain ms1 w1 where d: "detailTier env tweet ms w = (ms1, w1)"
    by (cases "detailTier env tweet ms w") auto
  obtain ms2 w2 where f: "fallbackMedia env tweet ms1 w1 = (ms2, w2)"
    by (cases "fallbackMedia env tweet ms1 w1") auto
  from assms(3) d f have "ms' = attachmentsNote tweet ms2" by (simp add: resolveMedia_def)
  moreover have "consistent ms2"
    using consistent_detailTier [OF assms(1,2) d] f by (rule consistent_fallbackMedia)
  ultimately show ?thesis by (simp add: consistent_attachmentsNote)
qed


text \<open>A video that the lookups read and whose download succeeds is found.\<close>

lemma downloadMedia_succeeds:
  assumes "downloadSucceeds env (calls w)"
  shows "\<exists>w'. downloadMedia env p url f w = (Inr (CACHE_DIR @ ''/'' @ f), w')"
proof -
  let ?fn = "\<lambda>attempt. case mediaAt env (calls w) attempt of
                 Some error \<Rightarrow> Inl error
               | None \<Rightarrow> (Inr (CACHE_DIR @ ''/'' @ f) :: error + string)"
  let ?ok = "\<lambda>j. 1 \<le> j \<and> mediaAt env (calls w) j = None"
  from assms obtain k where k: "1 \<le> k" "k \<le> MAX_RETRIES" "mediaAt env (calls w) k = None"
    by (auto simp: downloadSucceeds_def list_ex_iff)
  define k0 where "k0 = (LEAST j. ?ok j)"
  have ok: "?ok k0" unfolding k0_def by (rule LeastI [of ?ok k]) (use k in simp)
  have le: "k0 \<le> k" unfolding k0_def by (rule Least_le) (use k in simp)
  have before: "\<forall>i. 1 \<le> i \<and> i < k0 \<longrightarrow> isl (?fn i)"
  proof (intro allI impI)
    fix i assume i: "1 \<le> i \<and> i < k0"
    then have "\<not> ?ok i" unfolding k0_def using not_less_Least by blast
    with i show "isl (?fn i)" by (cases "mediaAt env (calls w) i") auto
  qed
  have "withRetry_loop ?fn MAX_RETRIES RETRY_DELAY 1 None []
      = (Inr (CACHE_DIR @ ''/'' @ f), [] @ rounds RETRY_DELAY 1 k0 @ [Call k0])"
    using ok le k before by (intro withRetry_loop_succeeds) auto
  then show ?thesis by (simp add: downloadMedia_def withRetry_def)
qed

lemma videoDownloaded_found:
  "p \<noteq> [] \<Longrightarrow> hasFoundVideo (videoDownloaded n p ms) \<and> truthy (videoPath (videoDownloaded n p ms)) \<and>
     hasFoundImage (videoDownloaded n p ms) = hasFoundImage ms \<and>
     em_image (embed (videoDownloaded n p ms)) = em_image (embed ms)"
  by (simp add: videoDownloaded_def addNote_def truthy_def Let_def)

text \<open>\<open>found ms ms'\<close>: \<open>ms'\<close> has a video with a path and the image of \<open>ms\<close>.\<close>

lemma directVideo_found:
  assumes "find isMp4Variant vs = Some v" and "downloadSucceeds env (calls w)"
  shows "\<exists>ms' w'. directVideo env tweet f n vs ms w = (Normal, ms', w') \<and> hasFoundVideo ms' \<and>
           truthy (videoPath ms') \<and> hasFoundImage ms' = hasFoundImage ms \<and>
           em_image (embed ms') = em_image (embed ms)"
proof -
  from assms(1) have ne: "vs \<noteq> []" by (cases vs) auto
  from downloadMedia_succeeds [OF assms(2)] obtain w' where
    dl: "downloadMedia env (t_id tweet) (orElse (v_src v) (v_url v)) f w = (Inr (CACHE_DIR @ ''/'' @ f), w')"
    by blast
  have "directVideo env tweet f n vs ms w
      = (Normal, videoDownloaded n (CACHE_DIR @ ''/'' @ f) (ms\<lparr>videoFilename := Some f\<rparr>), w')"
    using ne assms(1) dl by (simp add: directVideo_def Let_def)
  moreover have "CACHE_DIR @ ''/'' @ f \<noteq> []" by (simp add: CACHE_DIR_def)
  ultimately show ?thesis
    using videoDownloaded_found [of "CACHE_DIR @ ''/'' @ f" n "ms\<lparr>videoFilename := Some f\<rparr>"] by simp
qed

lemma directVideo_none:
  "find isMp4Variant vs = None \<Longrightarrow> directVideo env tweet f n vs ms w = (Normal, ms, w)"
  by (simp add: directVideo_def)

lemma mediaDetailsVideo_found:
  assumes "list_ex (\<lambda>m. (m_type m = ''video'' \<or> m_type m = ''animated_gif'') \<and>
                    mp4Variants (m_variants m) \<noteq> []) ms_list"
    and "downloadSucceeds env (calls w)"
  shows "\<exists>ms' w'. mediaDetailsVideo env tweet ms_list ms w = (Normal, ms', w') \<and> hasFoundVideo ms' \<and>
           truthy (videoPath ms') \<and> hasFoundImage ms' = hasFoundImage ms \<and>
           em_image (embed ms') = em_image (embed ms)"
  using assms(1)
proof (induction ms_list)
  case Nil
  then show ?case by simp
next
  case (Cons m rest)
  let ?f = "''video_'' @ t_id tweet @ ''.mp4''"
  show ?case
  proof (cases "(m_type m = ''video'' \<or> m_type m = ''animated_gif'') \<and> mp4Variants (m_variants m) \<noteq> []")
    case True
    then obtain best others where bo: "mp4Variants (m_variants m) = best # others"
      by (cases "mp4Variants (m_variants m)") auto
    from downloadMedia_succeeds [OF assms(2)] obtain w' where
      dl: "downloadMedia env (t_id tweet) (v_url best) ?f w = (Inr (CACHE_DIR @ ''/'' @ ?f), w')"
      by blast
    have ne: "CACHE_DIR @ ''/'' @ ?f \<noteq> []" by (simp add: CACHE_DIR_def)
    have "mediaDetailsVideo env tweet (m # rest) ms w
        = (Normal, videoDownloaded VideoWillFollow (CACHE_DIR @ ''/'' @ ?f)
                     (ms\<lparr>videoFilename := Some ?f\<rparr>), w')"
      using True bo dl ne by simp
    then show ?thesis
      using videoDownloaded_found [OF ne, of VideoWillFollow "ms\<lparr>videoFilename := Some ?f\<rparr>"] by simp
  next
    case False
    then have "mediaDetailsVideo env tweet (m # rest) ms w = mediaDetailsVideo env tweet rest ms w"
      by (cases "mp4Variants (m_variants m)") auto
    moreover from False Cons.prems have "list_ex (\<lambda>m. (m_type m = ''video'' \<or> m_type m = ''animated_gif'') \<and>
                    mp4Variants (m_variants m) \<noteq> []) rest" by auto
    ultimately show ?thesis using Cons.IH by simp
  qed
qed


lemma detailMedia_found:
  assumes "detailHasVideo d" and "downloadSucceeds env (calls w)" and "\<not> hasFoundVideo ms"
  shows "\<exists>ms' w'. detailMedia env tweet d ms w = (Normal, ms', w') \<and> hasFoundVideo ms' \<and>
           truthy (videoPath ms') \<and> hasFoundImage ms' = hasFoundImage ms \<and>
           em_image (embed ms') = em_image (embed ms)"
proof -
  let ?C1 = "\<exists>vs v. d_video d = Some vs \<and> find isMp4Variant vs = Some v"
  let ?C2 = "\<exists>vs v. d_parent d = Some (Some vs) \<and> find isMp4Variant vs = Some v"
  let ?C3 = "list_ex (\<lambda>m. (m_type m = ''video'' \<or> m_type m = ''animated_gif'') \<and>
                    mp4Variants (m_variants m) \<noteq> []) (d_mediaDetails d)"
  have skip2: "videoCase2 env tweet d m v = (Normal, m, v)" if "hasFoundVideo m" for m v
    using that by (simp add: videoCase2_def)
  have skip3: "videoCase3 env tweet d m v = (Normal, m, v)" if "hasFoundVideo m" for m v
    using that by (simp add: videoCase3_def)
  have skipI: "detailImages d m = m" if "hasFoundVideo m" for m
    using that by (simp add: detailImages_def)
  have none1: "videoCase1 env tweet d ms w = (Normal, ms, w)" if "\<not> ?C1"
    using that by (cases "d_video d") (auto simp: videoCase1_def directVideo_none)
  have none2: "videoCase2 env tweet d ms w = (Normal, ms, w)" if "\<not> ?C2"
  proof (cases "d_parent d")
    case None
    then show ?thesis by (simp add: videoCase2_def)
  next
    case (Some pv)
    with that show ?thesis by (cases pv) (auto simp: videoCase2_def directVideo_none)
  qed
  from assms(1) have "?C1 \<or> ?C2 \<or> ?C3"
    by (auto simp: detailHasVideo_def split: option.splits)
  then consider (one) ?C1 | (two) "\<not> ?C1" ?C2 | (three) "\<not> ?C1" "\<not> ?C2" ?C3 by blast
  then show ?thesis
  proof cases
    case one
    then obtain vs v where c: "d_video d = Some vs" "find isMp4Variant vs = Some v" by blast
    from directVideo_found [OF c(2) assms(2), of tweet "''video_'' @ t_id tweet @ ''.mp4''"
        VideoWillFollow ms]
    obtain ms' w' where r: "directVideo env tweet (''video_'' @ t_id tweet @ ''.mp4'') VideoWillFollow
        vs ms w = (Normal, ms', w')" and f: "hasFoundVideo ms'" "truthy (videoPath ms')"
        "hasFoundImage ms' = hasFoundImage ms" "em_image (embed ms') = em_image (embed ms)"
      by blast
    have "videoCase1 env tweet d ms w = (Normal, ms', w')"
      using c r assms(3) by (simp add: videoCase1_def)
    then have "detailMedia env tweet d ms w = (Normal, ms', w')"
      using f(1) by (simp add: detailMedia_def skip2 skip3 skipI)
    with f show ?thesis by blast
  next
    case two
    then obtain vs v where c: "d_parent d = Some (Some vs)" "find isMp4Variant vs = Some v" by blast
    from directVideo_found [OF c(2) assms(2), of tweet "''video_parent_'' @ t_id tweet @ ''.mp4''"
        VideoFromReferenced ms]
    obtain ms' w' where r: "directVideo env tweet (''video_parent_'' @ t_id tweet @ ''.mp4'')
        VideoFromReferenced vs ms w = (Normal, ms', w')" and f: "hasFoundVideo ms'"
        "truthy (videoPath ms')" "hasFoundImage ms' = hasFoundImage ms"
        "em_image (embed ms') = em_image (embed ms)"
      by blast
    have "videoCase2 env tweet d ms w = (Normal, ms', w')"
      using c r assms(3) by (simp add: videoCase2_def)
    then have "detailMedia env tweet d ms w = (Normal, ms', w')"
      using f(1) none1 [OF two(1)] by (simp add: detailMedia_def skip3 skipI)
    with f show ?thesis by blast
  next
    case three
    from mediaDetailsVideo_found [OF three(3) assms(2), of tweet ms]
    obtain ms' w' where r: "mediaDetailsVideo env tweet (d_mediaDetails d) ms w = (Normal, ms', w')"
      and f: "hasFoundVideo ms'" "truthy (videoPath ms')" "hasFoundImage ms' = hasFoundImage ms"
        "em_image (embed ms') = em_image (embed ms)"
      by blast
    from three(3) have "d_mediaDetails d \<noteq> []" by auto
    with r assms(3) have "videoCase3 env tweet d ms w = (Normal, ms', w')"
      by (simp add: videoCase3_def)
    then have "detailMedia env tweet d ms w = (Normal, ms', w')"
      using f(1) none1 [OF three(1)] none2 [OF three(2)] by (simp add: detailMedia_def skipI)
    with f show ?thesis by blast
  qed
qed

lemma fallbackMedia_found:
  assumes "rawHasVideo tweet" and "downloadSucceeds env (calls w)"
    and "\<not> hasFoundImage ms" and "\<not> hasFoundVideo ms"
  shows "\<exists>ms' w'. fallbackMedia env tweet ms w = (ms', w') \<and> hasFoundVideo ms' \<and>
           truthy (videoPath ms') \<and> \<not> hasFoundImage ms' \<and>
           em_image (embed ms') = em_image (embed ms)"
proof -
  let ?f = "''video_'' @ t_id tweet @ ''.mp4''"
  from assms(1) obtain videoMedia best others where
    v: "find (\<lambda>m. m_type m = ''video'' \<or> m_type m = ''animated_gif'') (extended_entities_media tweet)
          = Some videoMedia" and bo: "mp4Variants (m_variants videoMedia) = best # others"
    by (auto simp: rawHasVideo_def neq_Nil_conv split: option.splits)
  from v have ne: "extended_entities_media tweet \<noteq> []" by (cases "extended_entities_media tweet") auto
  from downloadMedia_succeeds [OF assms(2)] obtain w' where
    dl: "downloadMedia env (t_id tweet) (v_url best) ?f w = (Inr (CACHE_DIR @ ''/'' @ ?f), w')"
    by blast
  have p: "CACHE_DIR @ ''/'' @ ?f \<noteq> []" by (simp add: CACHE_DIR_def)
  let ?ms' = "videoDownloaded VideoWillFollow (CACHE_DIR @ ''/'' @ ?f) (ms\<lparr>videoFilename := Some ?f\<rparr>)"
  note f = videoDownloaded_found [OF p, of VideoWillFollow "ms\<lparr>videoFilename := Some ?f\<rparr>"]
  have "extendedVideo env tweet ms w = (?ms', w')"
    using v bo dl by (simp add: extendedVideo_def)
  then have "extendedEntities env tweet ms w = (?ms', w')"
    using ne f by (simp add: extendedEntities_def extendedImage_def)
  then have "fallbackMedia env tweet ms w = (?ms', w')"
    using assms(3,4) f by (simp add: fallbackMedia_def)
  with f assms(3) show ?thesis by simp
qed

lemma resolveMedia_detail_video:
  assumes "fetchSingleTweet env (t_id tweet) w = (Inr (Some d), w1)"
    and "detailHasVideo d" and "downloadSucceeds env (calls w1)"
    and "\<not> hasFoundImage ms0" and "\<not> hasFoundVideo ms0" and "em_image (embed ms0) = None"
  shows "hasFoundVideo (fst (resolveMedia env tweet ms0 w)) \<and>
         truthy (videoPath (fst (resolveMedia env tweet ms0 w))) \<and>
         \<not> hasFoundImage (fst (resolveMedia env tweet ms0 w)) \<and>
         em_image (embed (fst (resolveMedia env tweet ms0 w))) = None"
proof -
  from detailMedia_found [OF assms(2,3,5), of tweet] obtain ms' w' where
    r: "detailMedia env tweet d ms0 w1 = (Normal, ms', w')" and f: "hasFoundVideo ms'"
      "truthy (videoPath ms')" "hasFoundImage ms' = hasFoundImage ms0"
      "em_image (embed ms') = em_image (embed ms0)"
    by blast
  have "detailTier env tweet ms0 w = (ms', w')" using assms(1) r by (simp add: detailTier_def)
  then have "resolveMedia env tweet ms0 w = (ms', w')"
    using f(1) by (simp add: resolveMedia_def fallbackMedia_def attachmentsNote_def)
  with f assms(4,6) show ?thesis by simp
qed

lemma resolveMedia_raw_video:
  assumes "fetchSingleTweet env (t_id tweet) w = (r, w1)" and "r = Inr None \<or> isl r"
    and "rawHasVideo tweet" and "downloadSucceeds env (calls w1)"
    and "\<not> hasFoundImage ms0" and "\<not> hasFoundVideo ms0" and "em_image (embed ms0) = None"
  shows "hasFoundVideo (fst (resolveMedia env tweet ms0 w)) \<and>
         truthy (videoPath (fst (resolveMedia env tweet ms0 w))) \<and>
         \<not> hasFoundImage (fst (resolveMedia env tweet ms0 w)) \<and>
         em_image (embed (fst (resolveMedia env tweet ms0 w))) = None"
proof -
  have d: "detailTier env tweet ms0 w = (ms0, w1)"
    using assms(1,2) by (cases r) (auto simp: detailTier_def)
  from fallbackMedia_found [OF assms(3,4,5,6)] obtain ms' w' where
    fb: "fallbackMedia env tweet ms0 w1 = (ms', w')" and f: "hasFoundVideo ms'"
      "truthy (videoPath ms')" "\<not> hasFoundImage ms'" "em_image (embed ms') = em_image (embed ms0)"
    by blast
  have "resolveMedia env tweet ms0 w = (ms', w')"
    using d fb f(1) by (simp add: resolveMedia_def attachmentsNote_def)
  with f assms(7) show ?thesis by simp
qed

text \<open>
  Claim C6. A detail record that holds a video (an MP4 variant in \<^verbatim>\<open>video\<close>, in
  \<^verbatim>\<open>parent.video\<close> or in a \<^verbatim>\<open>mediaDetails\<close> entry of type video or animated GIF) whose
  download succeeds within the retries gets the video and no image, whatever photos and
  media the record and the raw post hold; and so does a raw post that holds a video in its
  extended media, in the fall-back tier and in the resolver when there is no detail record.
  Once a video is found, no image resolution is attempted: the image lookup of
  the detail record, the image lookup of the raw post, the whole fall-back and the
  media-key annotation leave the state as it is, so that a state in which the detail tier
  found a video is the result of the resolver. Consequently the resolver, started as the
  processing of a post starts it, never ends with a video and an image: when it found a
  video, the embed has no image and the path of the downloaded video is set.
\<close>

theorem video_excludes_image:
  "(hasFoundVideo ms \<longrightarrow>
      detailImages d ms = ms \<and> extendedImage tweet ms = ms \<and>
      fallbackMedia env tweet ms w = (ms, w) \<and> attachmentsNote tweet ms = ms) \<and>
   (detailTier env tweet ms0 w = (ms1, w1) \<and> hasFoundVideo ms1 \<longrightarrow>
      resolveMedia env tweet ms0 w = (ms1, w1)) \<and>
   (\<not> hasFoundImage ms0 \<and> \<not> hasFoundVideo ms0 \<and> em_image (embed ms0) = None \<and>
    resolveMedia env tweet ms0 w = (ms', w') \<and> hasFoundVideo ms' \<longrightarrow>
      \<not> hasFoundImage ms' \<and> em_image (embed ms') = None \<and> truthy (videoPath ms')) \<and>
   (fetchSingleTweet envD (t_id tweetD) wD = (Inr (Some dD), vD) \<and> detailHasVideo dD \<and>
    downloadSucceeds envD (calls vD) \<and>
    \<not> hasFoundImage msD \<and> \<not> hasFoundVideo msD \<and> em_image (embed msD) = None \<longrightarrow>
      hasFoundVideo (fst (resolveMedia envD tweetD msD wD)) \<and>
      truthy (videoPath (fst (resolveMedia envD tweetD msD wD))) \<and>
      \<not> hasFoundImage (fst (resolveMedia envD tweetD msD wD)) \<and>
      em_image (embed (fst (resolveMedia envD tweetD msD wD))) = None) \<and>
   (rawHasVideo tweetR \<and> downloadSucceeds envR (calls wR) \<and>
    \<not> hasFoundImage msR \<and> \<not> hasFoundVideo msR \<longrightarrow>
      hasFoundVideo (fst (fallbackMedia envR tweetR msR wR)) \<and>
      truthy (videoPath (fst (fallbackMedia envR tweetR msR wR))) \<and>
      \<not> hasFoundImage (fst (fallbackMedia envR tweetR msR wR)) \<and>
      em_image (embed (fst (fallbackMedia envR tweetR msR wR))) = em_image (embed msR)) \<and>
   (fetchSingleTweet envF (t_id tweetF) wF = (rF, vF) \<and> (rF = Inr None \<or> isl rF) \<and>
    rawHasVideo tweetF \<and> downloadSucceeds envF (calls vF) \<and>
    \<not> hasFoundImage msF \<and> \<not> hasFoundVideo msF \<and> em_image (embed msF) = None \<longrightarrow>
      hasFoundVideo (fst (resolveMedia envF tweetF msF wF)) \<and>
      truthy (videoPath (fst (resolveMedia envF tweetF msF wF))) \<and>
      \<not> hasFoundImage (fst (resolveMedia envF tweetF msF wF)) \<and>
      em_image (embed (fst (resolveMedia envF tweetF msF wF))) = None)"
proof -
  have 1: "hasFoundVideo ms \<longrightarrow>
      detailImages d ms = ms \<and> extendedImage tweet ms = ms \<and>
      fallbackMedia env tweet ms w = (ms, w) \<and> attachmentsNote tweet ms = ms"
    by (simp add: detailImages_def extendedImage_def fallbackMedia_def attachmentsNote_def)
  have 2: "detailTier env tweet ms0 w = (ms1, w1) \<and> hasFoundVideo ms1 \<longrightarrow>
      resolveMedia env tweet ms0 w = (ms1, w1)"
    by (simp add: resolveMedia_def fallbackMedia_def attachmentsNote_def)
  have 3: "\<not> hasFoundImage ms0 \<and> \<not> hasFoundVideo ms0 \<and> em_image (embed ms0) = None \<and>
    resolveMedia env tweet ms0 w = (ms', w') \<and> hasFoundVideo ms' \<longrightarrow>
      \<not> hasFoundImage ms' \<and> em_image (embed ms') = None \<and> truthy (videoPath ms')"
  proof
    assume a: "\<not> hasFoundImage ms0 \<and> \<not> hasFoundVideo ms0 \<and> em_image (embed ms0) = None \<and>
      resolveMedia env tweet ms0 w = (ms', w') \<and> hasFoundVideo ms'"
    then have "consistent ms0" by (simp add: consistent_def)
    with a have "consistent ms'" by (blast intro: consistent_resolveMedia)
    with a show "\<not> hasFoundImage ms' \<and> em_image (embed ms') = None \<and> truthy (videoPath ms')"
      by (auto simp: consistent_def)
  qed
  have 4: "fetchSingleTweet envD (t_id tweetD) wD = (Inr (Some dD), vD) \<and> detailHasVideo dD \<and>
    downloadSucceeds envD (calls vD) \<and>
    \<not> hasFoundImage msD \<and> \<not> hasFoundVideo msD \<and> em_image (embed msD) = None \<longrightarrow>
      hasFoundVideo (fst (resolveMedia envD tweetD msD wD)) \<and>
      truthy (videoPath (fst (resolveMedia envD tweetD msD wD))) \<and>
      \<not> hasFoundImage (fst (resolveMedia envD tweetD msD wD)) \<and>
      em_image (embed (fst (resolveMedia envD tweetD msD wD))) = None"
    using resolveMedia_detail_video [of envD tweetD wD dD vD msD] by blast
  have 5: "rawHasVideo tweetR \<and> downloadSucceeds envR (calls wR) \<and>
    \<not> hasFoundImage msR \<and> \<not> hasFoundVideo msR \<longrightarrow>
      hasFoundVideo (fst (fallbackMedia envR tweetR msR wR)) \<and>
      truthy (videoPath (fst (fallbackMedia envR tweetR msR wR))) \<and>
      \<not> hasFoundImage (fst (fallbackMedia envR tweetR msR wR)) \<and>
      em_image (embed (fst (fallbackMedia envR tweetR msR wR))) = em_image (embed msR)"
  proof
    assume a: "rawHasVideo tweetR \<and> downloadSucceeds envR (calls wR) \<and>
      \<not> hasFoundImage msR \<and> \<not> hasFoundVideo msR"
    then obtain m v where "fallbackMedia envR tweetR msR wR = (m, v)" "hasFoundVideo m"
      "truthy (videoPath m)" "\<not> hasFoundImage m" "em_image (embed m) = em_image (embed msR)"
      using fallbackMedia_found [of tweetR envR wR msR] by blast
    then show "hasFoundVideo (fst (fallbackMedia envR tweetR msR wR)) \<and>
      truthy (videoPath (fst (fallbackMedia envR tweetR msR wR))) \<and>
      \<not> hasFoundImage (fst (fallbackMedia envR tweetR msR wR)) \<and>
      em_image (embed (fst (fallbackMedia envR tweetR msR wR))) = em_image (embed msR)"
      by simp
  qed
  have 6: "fetchSingleTweet envF (t_id tweetF) wF = (rF, vF) \<and> (rF = Inr None \<or> isl rF) \<and>
    rawHasVideo tweetF \<and> downloadSucceeds envF (calls vF) \<and>
    \<not> hasFoundImage msF \<and> \<not> hasFoundVideo msF \<and> em_image (embed msF) = None \<longrightarrow>
      hasFoundVideo (fst (resolveMedia envF tweetF msF wF)) \<and>
      truthy (videoPath (fst (resolveMedia envF tweetF msF wF))) \<and>
      \<not> hasFoundImage (fst (resolveMedia envF tweetF msF wF)) \<and>
      em_image (embed (fst (resolveMedia envF tweetF msF wF))) = None"
  proof
    assume "fetchSingleTweet envF (t_id tweetF) wF = (rF, vF) \<and> (rF = Inr None \<or> isl rF) \<and>
      rawHasVideo tweetF \<and> downloadSucceeds envF (calls vF) \<and>
      \<not> hasFoundImage msF \<and> \<not> hasFoundVideo msF \<and> em_image (embed msF) = None"
    then show "hasFoundVideo (fst (resolveMedia envF tweetF msF wF)) \<and>
      truthy (videoPath (fst (resolveMedia envF tweetF msF wF))) \<and>
      \<not> hasFoundImage (fst (resolveMedia envF tweetF msF wF)) \<and>
      em_image (embed (fst (resolveMedia envF tweetF msF wF))) = None"
      by (intro resolveMedia_raw_video [of envF tweetF wF rF vF msF]) simp_all
  qed
  from 1 2 3 4 5 6 show ?thesis by (intro conjI)
qed


theorem video_excludes_image_witness:
  "d_photos exampleDetail = [\<lparr>ph_url = Some ''https://pbs.twimg.com/media/x.jpg''\<rparr>] \<and>
   detailHasVideo exampleDetail \<and>
   hasFoundVideo (fst (resolveMedia (exampleEnv [] (Some exampleDetail) True 100000)
      (examplePost ''1'' 90000) exampleState exampleIo)) \<and>
   em_image (embed (fst (resolveMedia (exampleEnv [] (Some exampleDetail) True 100000)
      (examplePost ''1'' 90000) exampleState exampleIo))) = None \<and>
   detailHasVideo (exampleDetail\<lparr>d_video := None, d_parent := Some (Some exampleVariants)\<rparr>) \<and>
   hasFoundVideo (fst (resolveMedia
      (exampleEnv [] (Some (exampleDetail\<lparr>d_video := None, d_parent := Some (Some exampleVariants)\<rparr>))
         True 100000)
      (examplePost ''1'' 90000) exampleState exampleIo)) \<and>
   em_image (embed (fst (resolveMedia
      (exampleEnv [] (Some (exampleDetail\<lparr>d_video := None, d_parent := Some (Some exampleVariants)\<rparr>))
         True 100000)
      (examplePost ''1'' 90000) exampleState exampleIo))) = None \<and>
   detailHasVideo (exampleDetail\<lparr>d_video := None, d_mediaDetails := [exampleMedia]\<rparr>) \<and>
   hasFoundVideo (fst (resolveMedia
      (exampleEnv [] (Some (exampleDetail\<lparr>d_video := None, d_mediaDetails := [exampleMedia]\<rparr>))
         True 100000)
      (examplePost ''1'' 90000) exampleState exampleIo)) \<and>
   em_image (embed (fst (resolveMedia
      (exampleEnv [] (Some (exampleDetail\<lparr>d_video := None, d_mediaDetails := [exampleMedia]\<rparr>))
         True 100000)
      (examplePost ''1'' 90000) exampleState exampleIo))) = None \<and>
   m_media_url_https exampleMedia = Some ''https://pbs.twimg.com/thumb.jpg'' \<and>
   rawHasVideo ((examplePost ''1'' 90000)\<lparr>extended_entities_media := [exampleMedia]\<rparr>) \<and>
   hasFoundVideo (fst (fallbackMedia (exampleEnv [] None True 100000)
      ((examplePost ''1'' 90000)\<lparr>extended_entities_media := [exampleMedia]\<rparr>)
      exampleState exampleIo)) \<and>
   hasFoundVideo (fst (resolveMedia (exampleEnv [] None True 100000)
      ((examplePost ''1'' 90000)\<lparr>extended_entities_media := [exampleMedia]\<rparr>)
      exampleState exampleIo)) \<and>
   em_image (embed (fst (resolveMedia (exampleEnv [] None True 100000)
      ((examplePost ''1'' 90000)\<lparr>extended_entities_media := [exampleMedia]\<rparr>)
      exampleState exampleIo))) = None"
proof -
  let ?d2 = "exampleDetail\<lparr>d_video := None, d_parent := Some (Some exampleVariants)\<rparr>"
  let ?d3 = "exampleDetail\<lparr>d_video := None, d_mediaDetails := [exampleMedia]\<rparr>"
  let ?t = "examplePost ''1'' 90000"
  let ?tr = "(examplePost ''1'' 90000)\<lparr>extended_entities_media := [exampleMedia]\<rparr>"
  let ?w1 = "\<lparr>calls = 1, events = [DetailRequest ''1'']\<rparr>"
  have fresh: "\<not> hasFoundImage exampleState" "\<not> hasFoundVideo exampleState"
    "em_image (embed exampleState) = None"
    by (simp_all add: exampleState_def newEmbed_def)
  have dl: "downloadSucceeds (exampleEnv [] x True 100000) n" for x n
    by (simp add: downloadSucceeds_def MAX_RETRIES_def exampleEnv_def upt_conv_Cons)
  have f: "fetchSingleTweet (exampleEnv [] x True 100000) (t_id ?t) exampleIo = (Inr x, ?w1)" for x
    by (simp add: fetchSingleTweet_def cycle_defs example_defs)
  have ft: "t_id ?tr = t_id ?t" by simp
  have p: "d_photos exampleDetail = [\<lparr>ph_url = Some ''https://pbs.twimg.com/media/x.jpg''\<rparr>]"
    by (simp add: exampleDetail_def)
  have v1: "detailHasVideo exampleDetail"
    by (simp add: detailHasVideo_def isMp4Variant_def example_defs)
  have v2: "detailHasVideo ?d2"
    by (simp add: detailHasVideo_def isMp4Variant_def example_defs)
  have v3: "detailHasVideo ?d3"
    by (simp add: detailHasVideo_def mp4Variants_def exampleMedia_def example_defs)
  have u: "m_media_url_https exampleMedia = Some ''https://pbs.twimg.com/thumb.jpg''"
    by (simp add: exampleMedia_def)
  have vr: "rawHasVideo ?tr"
    by (simp add: rawHasVideo_def mp4Variants_def exampleMedia_def example_defs)
  note r1 = video_excludes_image [where envD = "exampleEnv [] (Some exampleDetail) True 100000" and tweetD = ?t
      and wD = exampleIo and dD = exampleDetail and vD = ?w1 and msD = exampleState,
      THEN conjunct2, THEN conjunct2, THEN conjunct2, THEN conjunct1]
  note r2 = video_excludes_image [where envD = "exampleEnv [] (Some ?d2) True 100000" and tweetD = ?t
      and wD = exampleIo and dD = ?d2 and vD = ?w1 and msD = exampleState,
      THEN conjunct2, THEN conjunct2, THEN conjunct2, THEN conjunct1]
  note r3 = video_excludes_image [where envD = "exampleEnv [] (Some ?d3) True 100000" and tweetD = ?t
      and wD = exampleIo and dD = ?d3 and vD = ?w1 and msD = exampleState,
      THEN conjunct2, THEN conjunct2, THEN conjunct2, THEN conjunct1]
  note r4 = video_excludes_image [where envR = "exampleEnv [] None True 100000" and tweetR = ?tr
      and wR = exampleIo and msR = exampleState,
      THEN conjunct2, THEN conjunct2, THEN conjunct2, THEN conjunct2, THEN conjunct1]
  note r5 = video_excludes_image [where envF = "exampleEnv [] None True 100000" and tweetF = ?tr
      and wF = exampleIo and rF = "Inr None" and vF = ?w1 and msF = exampleState,
      THEN conjunct2, THEN conjunct2, THEN conjunct2, THEN conjunct2, THEN conjunct2]
  from r1 f [of "Some exampleDetail"] v1 dl fresh
  have a1: "hasFoundVideo (fst (resolveMedia (exampleEnv [] (Some exampleDetail) True 100000)
      ?t exampleState exampleIo)) \<and>
     em_image (embed (fst (resolveMedia (exampleEnv [] (Some exampleDetail) True 100000)
      ?t exampleState exampleIo))) = None" by blast
  from r2 f [of "Some ?d2"] v2 dl fresh
  have a2: "hasFoundVideo (fst (resolveMedia (exampleEnv [] (Some ?d2) True 100000)
      ?t exampleState exampleIo)) \<and>
     em_image (embed (fst (resolveMedia (exampleEnv [] (Some ?d2) True 100000)
      ?t exampleState exampleIo))) = None" by blast
  from r3 f [of "Some ?d3"] v3 dl fresh
  have a3: "hasFoundVideo (fst (resolveMedia (exampleEnv [] (Some ?d3) True 100000)
      ?t exampleState exampleIo)) \<and>
     em_image (embed (fst (resolveMedia (exampleEnv [] (Some ?d3) True 100000)
      ?t exampleState exampleIo))) = None" by blast
  from r4 vr dl fresh
  have a4: "hasFoundVideo (fst (fallbackMedia (exampleEnv [] None True 100000) ?tr
      exampleState exampleIo))" by blast
  from r5 f [of None] vr dl fresh
  have a5: "hasFoundVideo (fst (resolveMedia (exampleEnv [] None True 100000) ?tr
      exampleState exampleIo)) \<and>
     em_image (embed (fst (resolveMedia (exampleEnv [] None True 100000) ?tr
      exampleState exampleIo))) = None" unfolding ft by blast
  from p v1 a1 v2 a2 v3 a3 u vr a4 a5 show ?thesis by (intro conjI) (elim conjE, assumption)+
qed

section \<open>Variant selection and failed downloads\<close>

text \<open>
  The selection of lines 370-375 and 458-463: the first element of \<open>mp4Variants\<close> has
  content type MP4 and no variant of content type MP4 has a higher bitrate.
\<close>

lemma mp4Variants_best:
  assumes "mp4Variants variants = best # others"
  shows "best \<in> set variants \<and> v_content_type best = Some ''video/mp4'' \<and>
         (\<forall>v \<in> set variants. v_content_type v = Some ''video/mp4'' \<longrightarrow>
            (case v_bitrate v of Some b \<Rightarrow> b | None \<Rightarrow> 0)
              \<le> (case v_bitrate best of Some b \<Rightarrow> b | None \<Rightarrow> 0))"
proof -
  let ?key = "\<lambda>v. - (case v_bitrate v of Some b \<Rightarrow> b | None \<Rightarrow> (0::int))"
  let ?c = "filter (\<lambda>v. v_content_type v = Some ''video/mp4'') variants"
  have "sorted (map ?key (mp4Variants variants))"
    unfolding mp4Variants_def by (rule sorted_sort_key)
  then have s: "sorted (map ?key (best # others))" unfolding assms .
  have "set (mp4Variants variants) = set ?c"
    unfolding mp4Variants_def by (rule set_sort)
  then have m: "set (best # others) = set ?c" unfolding assms .
  then have b: "best \<in> set ?c" by auto
  have "\<forall>v \<in> set ?c. ?key best \<le> ?key v"
  proof
    fix v assume "v \<in> set ?c"
    with m have "v = best \<or> v \<in> set others" by auto
    with s show "?key best \<le> ?key v" by auto
  qed
  with b show ?thesis by auto
qed

text \<open>
  Claim C5 fails at the tiers that read \<^verbatim>\<open>video.variants\<close> (cases 1 and 2). For the
  three variants of the example (MP4 at bitrate 100, MP4 at bitrate 500, WebM at bitrate
  900) in \<^verbatim>\<open>detail.video\<close>, the test of line 317 finds the first MP4 variant and the
  processing of the post downloads the bitrate-100 file, whereas the selection by
  bitrate, which the tiers reading \<^verbatim>\<open>video_info.variants\<close> use, puts the bitrate-500
  variant first.
\<close>

theorem first_mp4_selected:
  "d_video exampleDetail = Some exampleVariants \<and>
   find isMp4Variant exampleVariants = Some (exampleVariant ''video/mp4'' ''https://v/100.mp4'' 100) \<and>
   added exampleIo (processTweet (exampleEnv [] (Some exampleDetail) True 100000)
       (examplePost ''1'' 90000) exampleIo)
     = [DetailRequest ''1'',
        MediaRequest ''1'' (Some ''https://v/100.mp4'') ''video_1.mp4'',
        SendEmbed ''1'' \<lparr>em_url = ''https://twitter.com/alice/status/1'', em_type = Tweet,
          em_notes = [VideoWillFollow], em_image = None, em_reply = False\<rparr>,
        SendVideo ''1'' (Some ''cache/video_1.mp4'') (Some ''video_1.mp4'')] \<and>
   map v_url (mp4Variants exampleVariants) = [Some ''https://v/500.mp4'', Some ''https://v/100.mp4'']"
  by (simp add: post_defs cycle_defs example_defs)

text \<open>
  What does hold of a failed download. No exception of a download leaves the processing
  of a post: a post with a user always gets its embed sent.
\<close>

lemma processTweet_sends:
  assumes "user tweet = Some u"
  shows "\<exists>em. SendEmbed (t_id tweet) em \<in> set (added w (processTweet env tweet w))"
proof -
  let ?ms0 = "\<lparr>hasFoundImage = False, hasFoundVideo = False, videoPath = None,
                videoFilename = None, embed = newEmbed tweet u\<rparr>"
  obtain ms w1 where r: "resolveMedia env tweet ?ms0 w = (ms, w1)"
    by (cases "resolveMedia env tweet ?ms0 w") auto
  let ?m = "SendEmbed (t_id tweet) (embed (replyField tweet ms))"
  obtain r2 w2 where s1: "channelSend env ?m w1 = (r2, w2)"
    by (cases "channelSend env ?m w1") auto
  have e2: "events w2 = events w1 @ [?m]" using s1 by (auto simp: channelSend_def)
  from grows_resolveMedia [OF r] obtain tr0 where e1: "events w1 = events w @ tr0"
    unfolding grows_def by blast
  let ?w' = "processTweet env tweet w"
  have "?w' = w2 \<or> ?w' = snd (channelSend env (SendVideo (t_id tweet) (videoPath ms) (videoFilename ms)) w2)"
    using assms r s1 by (cases r2) (auto simp: processTweet_def)
  then obtain tr where "events ?w' = events w2 @ tr"
    by (auto simp: channelSend_def)
  with e1 e2 have "added w ?w' = tr0 @ ?m # tr" by (simp add: added_def)
  then have "?m \<in> set (added w ?w')" by simp
  then show ?thesis by blast
qed

text \<open>
  In the raw-post tier a failed download is caught around the download, and the image
  lookup of the tier runs on a state without video.
\<close>

lemma extendedEntities_failed_download:
  assumes "extended_entities_media tweet \<noteq> []"
    and "find (\<lambda>m. m_type m = ''video'' \<or> m_type m = ''animated_gif'') (extended_entities_media tweet)
           = Some videoMedia"
    and "mp4Variants (m_variants videoMedia) = best # others"
    and "downloadMedia env (t_id tweet) (v_url best) (''video_'' @ t_id tweet @ ''.mp4'') w = (Inl error, w1)"
  shows "extendedEntities env tweet ms w
           = (extendedImage tweet (ms\<lparr>videoFilename := Some (''video_'' @ t_id tweet @ ''.mp4'')\<rparr>), w1)"
  using assms by (simp add: extendedEntities_def extendedVideo_def)

text \<open>
  Claim C7 fails in the detail tier. The detail record of the example has a video and a
  photo, and every download attempt fails. The exception of the download leaves the whole
  body of the detail tier, past its image lookup, and the raw post has no media: the
  embed is sent without image. With the same record without the video (no video found)
  the photo is attached. In the raw-post tier, in contrast, the failure is caught around
  the download and the image lookup of that tier runs.
\<close>

theorem failed_download_skips_detail_images:
  "added exampleIo (processTweet (exampleEnv [] (Some exampleDetail) False 100000)
       (examplePost ''1'' 90000) exampleIo)
     = [DetailRequest ''1'',
        MediaRequest ''1'' (Some ''https://v/100.mp4'') ''video_1.mp4'', Delay 1000,
        MediaRequest ''1'' (Some ''https://v/100.mp4'') ''video_1.mp4'', Delay 1000,
        MediaRequest ''1'' (Some ''https://v/100.mp4'') ''video_1.mp4'',
        SendEmbed ''1'' \<lparr>em_url = ''https://twitter.com/alice/status/1'', em_type = Tweet,
          em_notes = [], em_image = None, em_reply = False\<rparr>] \<and>
   added exampleIo (processTweet (exampleEnv [] (Some (exampleDetail\<lparr>d_video := None\<rparr>)) False 100000)
       (examplePost ''1'' 90000) exampleIo)
     = [DetailRequest ''1'',
        SendEmbed ''1'' \<lparr>em_url = ''https://twitter.com/alice/status/1'', em_type = Tweet,
          em_notes = [], em_image = Some ''https://pbs.twimg.com/media/x.jpg'', em_reply = False\<rparr>] \<and>
   added exampleIo (processTweet (exampleEnv [] None False 100000)
       ((examplePost ''1'' 90000)\<lparr>extended_entities_media :=
           [\<lparr>m_type = ''video'', m_variants = exampleVariants,
             m_media_url_https = Some ''https://pbs.twimg.com/thumb.jpg'', m_media_url = None\<rparr>]\<rparr>)
       exampleIo)
     = [DetailRequest ''1'',
        MediaRequest ''1'' (Some ''https://v/500.mp4'') ''video_1.mp4'', Delay 1000,
        MediaRequest ''1'' (Some ''https://v/500.mp4'') ''video_1.mp4'', Delay 1000,
        MediaRequest ''1'' (Some ''https://v/500.mp4'') ''video_1.mp4'',
        SendEmbed ''1'' \<lparr>em_url = ''https://twitter.com/alice/status/1'', em_type = Tweet,
          em_notes = [], em_image = Some ''https://pbs.twimg.com/thumb.jpg'', em_reply = False\<rparr>]"
  by (simp add: post_defs cycle_defs example_defs)

end
